(* ===== verification/Prelude.thy ===== *)
theory Prelude
  imports Complex_Main "HOL-Library.Multiset" "HOL-Library.Sublist"
begin

text \<open>
  Shared vocabulary of the development: the Python exceptions the script can raise, the
  result type \<open>'a result\<close> in which every raise is an \<open>Inl\<close> value, the sequencing of
  fallible steps (\<open>res_bind\<close>, \<open>res_map_list\<close>, which stop at the first exception as
  Python does), and the generic list facts on \<open>nths\<close> (selection of the elements at a
  set of positions) that the models of \<open>np.delete\<close> and fancy indexing share.
\<close>

named_theorems np_simps "evaluation rules of the numpy indexing model"
named_theorems script_simps "evaluation rules of the script model"

datatype py_error = IndexError | ValueError | OSError | NameError

type_synonym 'a result = "py_error + 'a"

definition res_bind :: "'a result \<Rightarrow> ('a \<Rightarrow> 'b result) \<Rightarrow> 'b result" where
  "res_bind r f = (case r of Inl e \<Rightarrow> Inl e | Inr a \<Rightarrow> f a)"

text \<open>
  \<open>res_map_list f xs\<close> applies a fallible \<open>f\<close> to each element from left to right and
  stops at the first error, as a Python loop or comprehension does.
\<close>

fun res_map_list :: "('a \<Rightarrow> 'b result) \<Rightarrow> 'a list \<Rightarrow> 'b list result" where
  "res_map_list f [] = Inr []"
| "res_map_list f (x # xs) =
     res_bind (f x) (\<lambda>y. res_bind (res_map_list f xs) (\<lambda>ys. Inr (y # ys)))"

lemma res_bind_Inl [simp]: "res_bind (Inl e) f = Inl e"
  by (simp add: res_bind_def)

lemma res_bind_Inr [simp]: "res_bind (Inr a) f = f a"
  by (simp add: res_bind_def)

lemma res_bind_eq_Inr:
  "res_bind r f = Inr b \<longleftrightarrow> (\<exists>a. r = Inr a \<and> f a = Inr b)"
  by (cases r) auto

lemma res_bind_eq_Inl:
  "res_bind r f = Inl e \<longleftrightarrow> r = Inl e \<or> (\<exists>a. r = Inr a \<and> f a = Inl e)"
  by (cases r) auto

lemma res_map_list_Inr_iff:
  "res_map_list f xs = Inr ys \<longleftrightarrow> list_all2 (\<lambda>x y. f x = Inr y) xs ys"
proof (induction xs arbitrary: ys)
  case Nil
  then show ?case by auto
next
  case (Cons x xs)
  then show ?case
    by (cases ys) (auto simp: res_bind_eq_Inr)
qed

lemma res_map_list_isl_iff:
  "isl (res_map_list f xs) \<longleftrightarrow> (\<exists>x\<in>set xs. isl (f x))"
  by (induction xs) (auto simp: res_bind_def split: sum.splits)

lemma count_list_replicate_eq: "count_list (replicate n x) c = (if c = x then n else 0)"
  by (induction n) auto

lemma res_map_list_map:
  "(\<And>x. f x = Inr (g x)) \<Longrightarrow> res_map_list f xs = Inr (map g xs)"
  by (induction xs) auto

subsection \<open>Selecting positions of a list\<close>

lemma nths_compl_mset:
  "mset (nths xs A) + mset (nths xs (- A)) = mset xs"
proof (induction xs arbitrary: A)
  case Nil
  then show ?case by simp
next
  case (Cons x xs)
  have "- {j. Suc j \<in> A} = {j. Suc j \<in> - A}" by auto
  with Cons.IH [of "{j. Suc j \<in> A}"] show ?case
    by (auto simp: nths_Cons)
qed

lemma length_nths_compl:
  "length (nths xs A) + length (nths xs (- A)) = length xs"
  by (metis nths_compl_mset size_mset size_union)

lemma nths_as_map_nth:
  "nths xs A = map ((!) xs) (filter (\<lambda>i. i \<in> A) [0..<length xs])"
proof -
  have "zip xs [0..<length xs] = map (\<lambda>i. (xs ! i, i)) [0..<length xs]"
    by (rule nth_equalityI) auto
  then show ?thesis
    by (simp add: nths_def filter_map comp_def)
qed

lemma mset_nths_distinct_indices:
  assumes "distinct js" and "\<forall>j\<in>set js. j < length xs"
  shows "mset (nths xs (set js)) = mset (map ((!) xs) js)"
proof -
  let ?ks = "filter (\<lambda>i. i \<in> set js) [0..<length xs]"
  have "set ?ks = set js" using assms(2) by auto
  moreover have "distinct ?ks" by simp
  ultimately have "mset ?ks = mset js"
    using assms(1) by (metis set_eq_iff_mset_eq_distinct)
  then have "mset (map ((!) xs) ?ks) = mset (map ((!) xs) js)"
    by (simp only: mset_map)
  then show ?thesis
    by (simp only: nths_as_map_nth)
qed

lemma nths_remove_one:
  "j < length xs \<Longrightarrow> take j xs @ drop (Suc j) xs = nths xs (- {j})"
proof (induction xs arbitrary: j)
  case Nil
  then show ?case by simp
next
  case (Cons x xs)
  show ?case
  proof (cases j)
    case 0
    have "{i. Suc i \<in> - {0::nat}} = UNIV" by auto
    then show ?thesis using 0 by (simp add: nths_Cons nths_all)
  next
    case (Suc k)
    have "{i. Suc i \<in> - {Suc k}} = - {k}" by auto
    then show ?thesis using Suc Cons by (simp add: nths_Cons)
  qed
qed

lemma length_nths_distinct_indices:
  "distinct js \<Longrightarrow> \<forall>j\<in>set js. j < length xs \<Longrightarrow> length (nths xs (set js)) = length js"
proof -
  assume "distinct js" "\<forall>j\<in>set js. j < length xs"
  then have "size (mset (nths xs (set js))) = size (mset (map ((!) xs) js))"
    by (simp only: mset_nths_distinct_indices)
  then show ?thesis by simp
qed

lemma mset_nths_compl_distinct:
  "distinct js \<Longrightarrow> \<forall>j\<in>set js. j < length xs \<Longrightarrow>
     mset (nths xs (- set js)) + mset (map ((!) xs) js) = mset xs"
  using mset_nths_distinct_indices [of js xs] nths_compl_mset [of xs "set js"]
  by (simp add: add.commute)

lemma length_nths_compl_distinct:
  "distinct js \<Longrightarrow> \<forall>j\<in>set js. j < length xs \<Longrightarrow>
     length (nths xs (- set js)) = length xs - length js"
  using length_nths_compl [of xs "set js"] length_nths_distinct_indices [of js xs]
  by simp

end
