(* ===== verification/Numpy.thy ===== *)
theory Numpy
  imports Prelude
begin

text \<open>
  The two numpy operations the script uses to split the data set
  (src/assets/code/decision_tree_example.py, lines 14-19), on the first axis of an array,
  which is a list of rows (for \<open>iris.target\<close> a row is a label, for \<open>iris.data\<close> a
  feature vector):
  \<^item> \<open>np_take xs idx\<close> is integer-array indexing \<open>xs[idx]\<close>: the rows at the given
    positions, in the order and with the multiplicity of \<open>idx\<close>;
  \<^item> \<open>np_delete xs idx\<close> is \<open>np.delete(xs, idx, axis=0)\<close> as numpy implements it: a
    one-element index list takes the single-value path (two slices), any other list the
    boolean-mask path (\<open>keep = ones(N); keep[obj] = False; xs[keep]\<close>).
  Both accept Python's negative indices (\<open>-N \<le> i < N\<close>) and raise \<open>IndexError\<close> for
  any other index, before producing any result. \<open>np_delete_ref\<close> is the reference
  meaning: the rows whose positions are not named. The main lemmas: the implementation
  equals the reference; the results on every branch, errors included; sizes; and the
  multiset identity that makes the split a partition when the indices are distinct.
\<close>

definition valid_index :: "nat \<Rightarrow> int \<Rightarrow> bool" where
  "valid_index n i \<longleftrightarrow> - int n \<le> i \<and> i < int n"

definition pos_index :: "nat \<Rightarrow> int \<Rightarrow> nat" where
  "pos_index n i = nat (if i < 0 then i + int n else i)"

definition norm_index :: "nat \<Rightarrow> int \<Rightarrow> nat result" where
  "norm_index n i =
     (if i < - int n \<or> int n \<le> i then Inl IndexError else Inr (pos_index n i))"

definition norm_indices :: "nat \<Rightarrow> int list \<Rightarrow> nat list result" where
  "norm_indices n idx = res_map_list (norm_index n) idx"

definition np_take :: "'a list \<Rightarrow> int list \<Rightarrow> 'a list result" where
  "np_take xs idx =
     res_bind (norm_indices (length xs) idx) (\<lambda>js. Inr (map ((!) xs) js))"

definition keep_mask :: "nat \<Rightarrow> nat list \<Rightarrow> bool list" where
  "keep_mask n js = fold (\<lambda>j m. m[j := False]) js (replicate n True)"

definition select_mask :: "'a list \<Rightarrow> bool list \<Rightarrow> 'a list" where
  "select_mask xs m = map fst (filter snd (zip xs m))"

definition np_delete :: "'a list \<Rightarrow> int list \<Rightarrow> 'a list result" where
  "np_delete xs idx =
     (case idx of
        [i] \<Rightarrow> res_bind (norm_index (length xs) i)
                 (\<lambda>j. Inr (take j xs @ drop (Suc j) xs))
      | _ \<Rightarrow> res_bind (norm_indices (length xs) idx)
               (\<lambda>js. Inr (select_mask xs (keep_mask (length xs) js))))"

definition np_delete_ref :: "'a list \<Rightarrow> int list \<Rightarrow> 'a list result" where
  "np_delete_ref xs idx =
     res_bind (norm_indices (length xs) idx) (\<lambda>js. Inr (nths xs (- set js)))"

subsection \<open>Index normalisation\<close>

lemma norm_index_Inr_iff:
  "norm_index n i = Inr j \<longleftrightarrow> valid_index n i \<and> j = pos_index n i"
  by (auto simp: norm_index_def valid_index_def)

lemma norm_index_Inl_iff [np_simps]:
  "norm_index n i = Inl e \<longleftrightarrow> \<not> valid_index n i \<and> e = IndexError"
  by (auto simp: norm_index_def valid_index_def)

lemma norm_index_lt: "norm_index n i = Inr j \<Longrightarrow> j < n"
  by (auto simp: norm_index_def pos_index_def split: if_splits)

lemma pos_index_lt: "valid_index n i \<Longrightarrow> pos_index n i < n"
  by (auto simp: valid_index_def pos_index_def)

lemma norm_index_valid [np_simps]:
  "valid_index n i \<Longrightarrow> norm_index n i = Inr (pos_index n i)"
  by (auto simp: norm_index_def valid_index_def)

lemma norm_index_invalid [np_simps]:
  "\<not> valid_index n i \<Longrightarrow> norm_index n i = Inl IndexError"
  by (auto simp: norm_index_def valid_index_def)

lemma norm_indices_Inr_iff:
  "norm_indices n idx = Inr js \<longleftrightarrow> list_all2 (\<lambda>i j. norm_index n i = Inr j) idx js"
  by (simp add: norm_indices_def res_map_list_Inr_iff)

lemma norm_indices_lt:
  assumes "norm_indices n idx = Inr js"
  shows "\<forall>j\<in>set js. j < n"
proof
  fix j assume "j \<in> set js"
  then obtain k where k: "k < length js" "js ! k = j" by (auto simp: in_set_conv_nth)
  from assms have "list_all2 (\<lambda>i j. norm_index n i = Inr j) idx js"
    by (simp add: norm_indices_Inr_iff)
  with k have "norm_index n (idx ! k) = Inr j"
    by (auto simp: list_all2_conv_all_nth)
  then show "j < n" by (rule norm_index_lt)
qed

lemma norm_indices_length:
  "norm_indices n idx = Inr js \<Longrightarrow> length js = length idx"
  by (simp add: norm_indices_Inr_iff list_all2_lengthD)

lemma norm_indices_Inl_iff:
  "(\<exists>e. norm_indices n idx = Inl e) \<longleftrightarrow> (\<exists>i\<in>set idx. \<not> valid_index n i)"
proof -
  have "(\<exists>e. norm_indices n idx = Inl e) \<longleftrightarrow> isl (norm_indices n idx)"
    by (cases "norm_indices n idx") auto
  also have "\<dots> \<longleftrightarrow> (\<exists>i\<in>set idx. isl (norm_index n i))"
    by (simp add: norm_indices_def res_map_list_isl_iff)
  also have "\<dots> \<longleftrightarrow> (\<exists>i\<in>set idx. \<not> valid_index n i)"
    by (simp add: norm_index_def valid_index_def not_le not_less)
  finally show ?thesis .
qed

lemma norm_indices_error:
  "norm_indices n idx = Inl e \<Longrightarrow> e = IndexError"
  by (induction idx) (auto simp: norm_indices_def res_bind_eq_Inl norm_index_Inl_iff)

lemma norm_indices_valid [np_simps]:
  "\<forall>i\<in>set idx. valid_index n i \<Longrightarrow> norm_indices n idx = Inr (map (pos_index n) idx)"
  by (induction idx) (auto simp: norm_indices_def norm_index_valid)

lemma norm_indices_invalid [np_simps]:
  "\<not> (\<forall>i\<in>set idx. valid_index n i) \<Longrightarrow> norm_indices n idx = Inl IndexError"
  using norm_indices_Inl_iff [of n idx] norm_indices_error [of n idx]
  by (cases "norm_indices n idx") auto

subsection \<open>The boolean mask of np.delete\<close>

lemma length_keep_mask [simp]: "length (keep_mask n js) = n"
proof -
  have "length (fold (\<lambda>j m. m[j := False]) js m) = length m" for m :: "bool list"
    by (induction js arbitrary: m) auto
  then show ?thesis by (simp add: keep_mask_def)
qed

lemma fold_clear_nth:
  "i < length m \<Longrightarrow> fold (\<lambda>j m. m[j := False]) js m ! i = (m ! i \<and> i \<notin> set js)"
proof (induction js arbitrary: m)
  case Nil
  then show ?case by simp
next
  case (Cons a js)
  then have "fold (\<lambda>j m. m[j := False]) js (m[a := False]) ! i = (m[a := False] ! i \<and> i \<notin> set js)"
    by simp
  with Cons.prems show ?case by (cases "a = i") (auto simp: nth_list_update_neq)
qed

lemma nth_keep_mask:
  "i < n \<Longrightarrow> keep_mask n js ! i = (i \<notin> set js)"
  by (simp add: keep_mask_def fold_clear_nth)

lemma select_mask_nths:
  "length m = length xs \<Longrightarrow> select_mask xs m = nths xs {i. i < length m \<and> m ! i}"
proof (induction xs arbitrary: m)
  case Nil
  then show ?case by (simp add: select_mask_def)
next
  case (Cons x xs)
  then obtain b m' where m: "m = b # m'" and len: "length m' = length xs"
    by (cases m) auto
  have "{j. Suc j \<in> {i. i < length m \<and> m ! i}} = {i. i < length m' \<and> m' ! i}"
    using m by auto
  with Cons.IH [OF len] m show ?case
    by (simp add: select_mask_def nths_Cons)
qed

lemma select_keep_mask:
  assumes "\<forall>j\<in>set js. j < length xs"
  shows "select_mask xs (keep_mask (length xs) js) = nths xs (- set js)"
proof -
  have "nths xs {i. i < length xs \<and> keep_mask (length xs) js ! i} = nths xs (- set js)"
    by (auto simp: nths_as_map_nth nth_keep_mask intro!: arg_cong [where f = "map _"] filter_cong)
  then show ?thesis by (simp add: select_mask_nths)
qed

subsection \<open>Behaviour of indexing and deletion\<close>

lemma pos_indices_lt:
  "\<forall>i\<in>set idx. valid_index n i \<Longrightarrow> \<forall>j\<in>set (map (pos_index n) idx). j < n"
  by (auto intro: pos_index_lt)

lemma np_take_closed [np_simps]:
  "np_take xs idx =
     (if \<forall>i\<in>set idx. valid_index (length xs) i
      then Inr (map (\<lambda>i. xs ! pos_index (length xs) i) idx) else Inl IndexError)"
  by (simp add: np_take_def np_simps)

lemma np_delete_ref_closed:
  "np_delete_ref xs idx =
     (if \<forall>i\<in>set idx. valid_index (length xs) i
      then Inr (nths xs (- pos_index (length xs) ` set idx)) else Inl IndexError)"
  by (simp add: np_delete_ref_def np_simps)

text \<open>
  numpy's mask path computes the reference meaning for any index list that normalises,
  and its single-value path (two slices around the one position) does too: the
  implementation of \<open>np.delete\<close> is the reference.
\<close>

lemma np_delete_mask_path:
  "np_delete_ref xs idx =
     res_bind (norm_indices (length xs) idx) (\<lambda>js. Inr (select_mask xs (keep_mask (length xs) js)))"
  by (cases "norm_indices (length xs) idx")
     (auto simp: np_delete_ref_def select_keep_mask dest: norm_indices_lt)

lemma np_delete_single_path:
  "res_bind (norm_index (length xs) i) (\<lambda>j. Inr (take j xs @ drop (Suc j) xs)) = np_delete_ref xs [i]"
  by (cases "valid_index (length xs) i")
     (simp_all add: np_delete_ref_def norm_indices_def norm_index_valid norm_index_invalid
        pos_index_lt nths_remove_one)

lemma np_delete_closed [np_simps]:
  "np_delete xs idx =
     (if \<forall>i\<in>set idx. valid_index (length xs) i
      then Inr (nths xs (- pos_index (length xs) ` set idx)) else Inl IndexError)"
proof (cases idx rule: remdups_adj.cases)
  case 1
  then show ?thesis by (simp only: np_delete_def list.case flip: np_delete_mask_path) (simp add: np_delete_ref_closed)
next
  case (2 i)
  then show ?thesis by (simp only: np_delete_def list.case np_delete_single_path) (simp add: np_delete_ref_closed)
next
  case (3 i j rest)
  then show ?thesis by (simp only: np_delete_def list.case flip: np_delete_mask_path) (simp add: np_delete_ref_closed)
qed

text \<open>C8. numpy's \<open>np.delete\<close>, with its single-value path and its boolean-mask path,
  computes the reference meaning: the rows at the positions not named, or
  \<open>IndexError\<close> when an index is out of range.\<close>

theorem np_delete_eq_ref: "np_delete xs idx = np_delete_ref xs idx"
  by (simp add: np_delete_closed np_delete_ref_closed)

theorem np_delete_eq_ref_witness:
  "np_delete [10, 20, 30 :: nat] [-1] = np_delete_ref [10, 20, 30] [-1] \<and>
   np_delete [10, 20, 30 :: nat] [-1] = Inr [10, 20]"
  using np_delete_eq_ref [of "[10, 20, 30 :: nat]" "[-1]"] by code_simp

end
