(* ===== verification/Partition.thy ===== *)
theory Partition
  imports Numpy
begin

text \<open>
  The data set and its split into a training and a hold-out part
  (src/assets/code/decision_tree_example.py, lines 8-19). A \<open>dataset\<close> is the part of the
  \<open>Bunch\<close> returned by \<open>load_iris()\<close> that the script reads: the feature matrix
  \<open>data\<close> (one row of measurements per sample), the label vector \<open>target\<close>, and the
  feature and class names. \<open>split_data d idx\<close> runs lines 14, 15, 18 and 19 in their order
  and yields the four arrays, or the first \<open>IndexError\<close>. The lemmas give its result on
  every input, show that it is a partition of the rows when the normalised indices are
  distinct (and that it is not one when they repeat), that data rows and labels stay
  paired, that the training part keeps the order of the data set, and the script's own
  case \<open>test_idx = [0, 50, 100]\<close> on the iris data.
\<close>

record dataset =
  data :: "real list list"
  target :: "nat list"
  feature_names :: "string list"
  target_names :: "string list"

record split =
  train_target :: "nat list"
  train_data :: "real list list"
  test_target :: "nat list"
  test_data :: "real list list"

definition test_idx :: "int list" where
  "test_idx = [0, 50, 100]"

definition split_data :: "dataset \<Rightarrow> int list \<Rightarrow> split result" where
  "split_data d idx =
     res_bind (np_delete (target d) idx) (\<lambda>trt.
     res_bind (np_delete (data d) idx) (\<lambda>trd.
     res_bind (np_take (target d) idx) (\<lambda>tst.
     res_bind (np_take (data d) idx) (\<lambda>tsd.
     Inr \<lparr>train_target = trt, train_data = trd, test_target = tst, test_data = tsd\<rparr>))))"

text \<open>
  The iris data set as \<open>sklearn.datasets.load_iris\<close> ships it: 150 samples of 4
  measurements, the first 50 of class 0 (setosa), the next 50 of class 1 (versicolor), the
  last 50 of class 2 (virginica). The measurements themselves are not reproduced; a
  data set is iris-shaped when it has this size, these labels and these names.
\<close>

definition iris_target :: "nat list" where
  "iris_target = replicate 50 0 @ replicate 50 1 @ replicate 50 2"

definition iris_feature_names :: "string list" where
  "iris_feature_names =
     [''sepal length (cm)'', ''sepal width (cm)'', ''petal length (cm)'', ''petal width (cm)'']"

definition iris_target_names :: "string list" where
  "iris_target_names = [''setosa'', ''versicolor'', ''virginica'']"

definition iris_shaped :: "dataset \<Rightarrow> bool" where
  "iris_shaped d \<longleftrightarrow>
     length (data d) = 150 \<and> list_all (\<lambda>r. length r = 4) (data d) \<and>
     target d = iris_target \<and> feature_names d = iris_feature_names \<and>
     target_names d = iris_target_names"

abbreviation positions :: "dataset \<Rightarrow> int list \<Rightarrow> nat list" where
  "positions d idx \<equiv> map (pos_index (length (target d))) idx"

abbreviation all_valid :: "dataset \<Rightarrow> int list \<Rightarrow> bool" where
  "all_valid d idx \<equiv> list_all (valid_index (length (target d))) idx"

subsection \<open>Behaviour of the split\<close>

lemma split_data_closed:
  assumes "length (data d) = length (target d)"
  shows "split_data d idx =
    (if all_valid d idx
     then Inr \<lparr>train_target = nths (target d) (- set (positions d idx)),
               train_data = nths (data d) (- set (positions d idx)),
               test_target = map ((!) (target d)) (positions d idx),
               test_data = map ((!) (data d)) (positions d idx)\<rparr>
     else Inl IndexError)"
  using assms by (simp add: split_data_def np_simps list_all_iff)

lemma split_data_invalid:
  assumes "\<not> all_valid d idx"
  shows "split_data d idx = Inl IndexError"
proof -
  from assms have "np_delete (target d) idx = Inl IndexError"
    by (simp add: np_delete_closed list_all_iff)
  then show ?thesis by (simp add: split_data_def)
qed

lemma split_data_Inr_valid:
  "split_data d idx = Inr s \<Longrightarrow> all_valid d idx"
  using split_data_invalid by fastforce

lemma split_data_Inr:
  assumes "length (data d) = length (target d)" and "split_data d idx = Inr s"
  shows "train_target s = nths (target d) (- set (positions d idx))"
    and "train_data s = nths (data d) (- set (positions d idx))"
    and "test_target s = map ((!) (target d)) (positions d idx)"
    and "test_data s = map ((!) (data d)) (positions d idx)"
  using assms split_data_Inr_valid [OF assms(2)] by (auto simp: split_data_closed)

lemma split_data_parts:
  assumes "split_data d idx = Inr s"
  shows "np_delete (target d) idx = Inr (train_target s) \<and> np_delete (data d) idx = Inr (train_data s) \<and>
         np_take (target d) idx = Inr (test_target s) \<and> np_take (data d) idx = Inr (test_data s)"
  using assms by (auto simp: split_data_def res_bind_eq_Inr)

lemma positions_lt:
  "all_valid d idx \<Longrightarrow> \<forall>j\<in>set (positions d idx). j < length (target d)"
  by (auto simp: list_all_iff intro: pos_index_lt)

lemmas split_facts = split_data_Inr split_data_Inr_valid positions_lt

subsection \<open>Properties of the split\<close>

text \<open>C7. The split is a partition of the labels and of the rows when the normalised
  hold-out positions are distinct.\<close>

theorem split_partition:
  assumes len: "length (data d) = length (target d)"
    and ok: "split_data d idx = Inr s"
    and dist: "distinct (positions d idx)"
  shows "mset (train_target s) + mset (test_target s) = mset (target d) \<and>
         mset (train_data s) + mset (test_data s) = mset (data d)"
proof -
  have lt: "\<forall>j\<in>set (positions d idx). j < length (target d)"
    using positions_lt [OF split_data_Inr_valid [OF ok]] .
  then have lt': "\<forall>j\<in>set (positions d idx). j < length (data d)"
    using len by simp
  show ?thesis
    using mset_nths_compl_distinct [OF dist lt] mset_nths_compl_distinct [OF dist lt']
    by (simp add: split_data_Inr [OF len ok])
qed

theorem split_partition_witness:
  "length (data \<lparr>data = [[1], [2], [3]], target = [0, 1, 2], feature_names = [], target_names = []\<rparr>) = length (target \<lparr>data = [[1], [2], [3]], target = [0, 1, 2], feature_names = [], target_names = []\<rparr>) \<and> split_data \<lparr>data = [[1], [2], [3]], target = [0, 1, 2], feature_names = [], target_names = []\<rparr> [0, 2] = Inr \<lparr>train_target = [1], train_data = [[2]], test_target = [0, 2], test_data = [[1], [3]]\<rparr> \<and>
   distinct (positions \<lparr>data = [[1], [2], [3]], target = [0, 1, 2], feature_names = [], target_names = []\<rparr> [0, 2]) \<and>
   mset (train_target \<lparr>train_target = [1], train_data = [[2]], test_target = [0, 2], test_data = [[1], [3]]\<rparr>) + mset (test_target \<lparr>train_target = [1], train_data = [[2]], test_target = [0, 2], test_data = [[1], [3]]\<rparr>) = mset (target \<lparr>data = [[1], [2], [3]], target = [0, 1, 2], feature_names = [], target_names = []\<rparr>) \<and>
   mset (train_data \<lparr>train_target = [1], train_data = [[2]], test_target = [0, 2], test_data = [[1], [3]]\<rparr>) + mset (test_data \<lparr>train_target = [1], train_data = [[2]], test_target = [0, 2], test_data = [[1], [3]]\<rparr>) = mset (data \<lparr>data = [[1], [2], [3]], target = [0, 1, 2], feature_names = [], target_names = []\<rparr>)"
proof -
  have h1: "length (data \<lparr>data = [[1], [2], [3]], target = [0, 1, 2], feature_names = [], target_names = []\<rparr>) = length (target \<lparr>data = [[1], [2], [3]], target = [0, 1, 2], feature_names = [], target_names = []\<rparr>)" by simp
  have h2: "split_data \<lparr>data = [[1], [2], [3]], target = [0, 1, 2], feature_names = [], target_names = []\<rparr> [0, 2] = Inr \<lparr>train_target = [1], train_data = [[2]], test_target = [0, 2], test_data = [[1], [3]]\<rparr>" by code_simp
  have h3: "distinct (positions \<lparr>data = [[1], [2], [3]], target = [0, 1, 2], feature_names = [], target_names = []\<rparr> [0, 2])" by (simp add: pos_index_def)
  show ?thesis using split_partition [OF h1 h2 h3] h1 h2 h3 by blast
qed




text \<open>C24. Rows and labels stay paired: both parts of the data matrix and of the label
  vector are read at the same list of positions.\<close>

theorem split_rows_paired:
  assumes len: "length (data d) = length (target d)"
    and ok: "split_data d idx = Inr s"
  shows "\<exists>ps qs. train_target s = map ((!) (target d)) ps \<and> train_data s = map ((!) (data d)) ps \<and>
           test_target s = map ((!) (target d)) qs \<and> test_data s = map ((!) (data d)) qs \<and>
           (\<forall>p\<in>set ps \<union> set qs. p < length (target d))"
proof -
  let ?J = "- set (positions d idx)"
  let ?ps = "filter (\<lambda>i. i \<in> ?J) [0..<length (target d)]"
  have lt: "\<forall>j\<in>set (positions d idx). j < length (target d)"
    using positions_lt [OF split_data_Inr_valid [OF ok]] .
  have "train_target s = map ((!) (target d)) ?ps" and "train_data s = map ((!) (data d)) ?ps"
    using len by (simp_all add: split_data_Inr [OF len ok] nths_as_map_nth)
  moreover have "test_target s = map ((!) (target d)) (positions d idx)"
    and "test_data s = map ((!) (data d)) (positions d idx)"
    by (simp_all add: split_data_Inr [OF len ok])
  moreover have "\<forall>p\<in>set ?ps \<union> set (positions d idx). p < length (target d)"
    using lt by auto
  ultimately show ?thesis by blast
qed

theorem split_rows_paired_witness:
  "length (data \<lparr>data = [[1], [2], [3]], target = [0, 1, 2], feature_names = [], target_names = []\<rparr>) = length (target \<lparr>data = [[1], [2], [3]], target = [0, 1, 2], feature_names = [], target_names = []\<rparr>) \<and> split_data \<lparr>data = [[1], [2], [3]], target = [0, 1, 2], feature_names = [], target_names = []\<rparr> [0, 2] = Inr \<lparr>train_target = [1], train_data = [[2]], test_target = [0, 2], test_data = [[1], [3]]\<rparr> \<and>
   (\<exists>ps qs. train_target \<lparr>train_target = [1], train_data = [[2]], test_target = [0, 2], test_data = [[1], [3]]\<rparr> = map ((!) (target \<lparr>data = [[1], [2], [3]], target = [0, 1, 2], feature_names = [], target_names = []\<rparr>)) ps \<and> train_data \<lparr>train_target = [1], train_data = [[2]], test_target = [0, 2], test_data = [[1], [3]]\<rparr> = map ((!) (data \<lparr>data = [[1], [2], [3]], target = [0, 1, 2], feature_names = [], target_names = []\<rparr>)) ps \<and>
      test_target \<lparr>train_target = [1], train_data = [[2]], test_target = [0, 2], test_data = [[1], [3]]\<rparr> = map ((!) (target \<lparr>data = [[1], [2], [3]], target = [0, 1, 2], feature_names = [], target_names = []\<rparr>)) qs \<and> test_data \<lparr>train_target = [1], train_data = [[2]], test_target = [0, 2], test_data = [[1], [3]]\<rparr> = map ((!) (data \<lparr>data = [[1], [2], [3]], target = [0, 1, 2], feature_names = [], target_names = []\<rparr>)) qs \<and>
      set ps \<union> set qs \<subseteq> {..<length (target \<lparr>data = [[1], [2], [3]], target = [0, 1, 2], feature_names = [], target_names = []\<rparr>)})"
proof -
  have h1: "length (data \<lparr>data = [[1], [2], [3]], target = [0, 1, 2], feature_names = [], target_names = []\<rparr>) = length (target \<lparr>data = [[1], [2], [3]], target = [0, 1, 2], feature_names = [], target_names = []\<rparr>)" by simp
  have h2: "split_data \<lparr>data = [[1], [2], [3]], target = [0, 1, 2], feature_names = [], target_names = []\<rparr> [0, 2] = Inr \<lparr>train_target = [1], train_data = [[2]], test_target = [0, 2], test_data = [[1], [3]]\<rparr>" by code_simp
  from split_rows_paired [OF h1 h2] obtain ps qs where
    "train_target \<lparr>train_target = [1], train_data = [[2]], test_target = [0, 2], test_data = [[1], [3]]\<rparr> = map ((!) (target \<lparr>data = [[1], [2], [3]], target = [0, 1, 2], feature_names = [], target_names = []\<rparr>)) ps \<and> train_data \<lparr>train_target = [1], train_data = [[2]], test_target = [0, 2], test_data = [[1], [3]]\<rparr> = map ((!) (data \<lparr>data = [[1], [2], [3]], target = [0, 1, 2], feature_names = [], target_names = []\<rparr>)) ps \<and>
      test_target \<lparr>train_target = [1], train_data = [[2]], test_target = [0, 2], test_data = [[1], [3]]\<rparr> = map ((!) (target \<lparr>data = [[1], [2], [3]], target = [0, 1, 2], feature_names = [], target_names = []\<rparr>)) qs \<and> test_data \<lparr>train_target = [1], train_data = [[2]], test_target = [0, 2], test_data = [[1], [3]]\<rparr> = map ((!) (data \<lparr>data = [[1], [2], [3]], target = [0, 1, 2], feature_names = [], target_names = []\<rparr>)) qs \<and>
      (\<forall>p\<in>set ps \<union> set qs. p < length (target \<lparr>data = [[1], [2], [3]], target = [0, 1, 2], feature_names = [], target_names = []\<rparr>))" by blast
  then show ?thesis using h1 h2 by blast
qed

lemma split_data_iris:
  assumes "iris_shaped d"
  shows "split_data d test_idx =
           Inr \<lparr>train_target = replicate 49 0 @ replicate 49 1 @ replicate 49 2,
                train_data = nths (data d) (- {0, 50, 100}), test_target = [0, 1, 2],
                test_data = [data d ! 0, data d ! 50, data d ! 100]\<rparr>"
proof -
  have len: "length (data d) = length (target d)" and t: "target d = iris_target"
    using assms by (simp_all add: iris_shaped_def iris_target_def)
  have valid: "all_valid d test_idx"
    using t by (simp add: test_idx_def iris_target_def valid_index_def)
  have pos: "positions d test_idx = [0, 50, 100]"
    using t by (simp add: test_idx_def iris_target_def pos_index_def)
  have tr: "nths iris_target (- {0, 50, 100}) = replicate 49 0 @ replicate 49 1 @ replicate 49 2"
    by code_simp
  have te: "map ((!) iris_target) [0, 50, 100] = [0, 1, 2]"
    by (simp add: iris_target_def nth_append)
  show ?thesis
    using valid pos tr te t by (simp add: split_data_closed [OF len])
qed

lemma iris_shaped_rows: "iris_shaped d \<Longrightarrow> length (data d) = 150"
  by (simp add: iris_shaped_def)

text \<open>C6. The script's own split: on the iris data, \<open>test_idx = [0, 50, 100]\<close> leaves
  147 training rows, 49 of each class, and a hold-out part with the true labels
  \<open>[0, 1, 2]\<close>, one sample of each class.\<close>

theorem split_iris:
  assumes "iris_shaped d"
  shows "\<exists>s. split_data d test_idx = Inr s \<and>
           train_target s = replicate 49 0 @ replicate 49 1 @ replicate 49 2 \<and>
           length (train_data s) = 147 \<and> test_target s = [0, 1, 2] \<and>
           test_data s = [data d ! 0, data d ! 50, data d ! 100]"
proof -
  have "length (nths (data d) (- set [0, 50, 100])) = 150 - 3"
    using length_nths_compl_distinct [of "[0, 50, 100]" "data d"] iris_shaped_rows [OF assms]
    by simp
  then show ?thesis using split_data_iris [OF assms] by simp
qed

theorem split_iris_witness:
  "iris_shaped \<lparr>data = replicate 150 [0, 0, 0, 0], target = iris_target, feature_names = iris_feature_names, target_names = iris_target_names\<rparr> \<and>
   (\<exists>s. split_data \<lparr>data = replicate 150 [0, 0, 0, 0], target = iris_target, feature_names = iris_feature_names, target_names = iris_target_names\<rparr> test_idx = Inr s \<and>
      train_target s = replicate 49 0 @ replicate 49 1 @ replicate 49 2 \<and>
      length (train_data s) = 147 \<and> test_target s = [0, 1, 2] \<and>
      test_data s = [data \<lparr>data = replicate 150 [0, 0, 0, 0], target = iris_target, feature_names = iris_feature_names, target_names = iris_target_names\<rparr> ! 0, data \<lparr>data = replicate 150 [0, 0, 0, 0], target = iris_target, feature_names = iris_feature_names, target_names = iris_target_names\<rparr> ! 50, data \<lparr>data = replicate 150 [0, 0, 0, 0], target = iris_target, feature_names = iris_feature_names, target_names = iris_target_names\<rparr> ! 100])"
proof -
  have h: "iris_shaped \<lparr>data = replicate 150 [0, 0, 0, 0], target = iris_target, feature_names = iris_feature_names, target_names = iris_target_names\<rparr>"
    by (simp add: iris_shaped_def iris_target_def list_all_iff)
  show ?thesis using split_iris [OF h] h by blast
qed

text \<open>C25. An empty hold-out list trains on the whole data set and holds out nothing.\<close>

theorem split_empty_idx:
  "split_data d [] =
     Inr \<lparr>train_target = target d, train_data = data d, test_target = [], test_data = []\<rparr>"
  by (simp add: split_data_def np_simps nths_all)

text \<open>C26. A hold-out index outside \<open>-N \<le> i < N\<close> makes the split raise
  \<open>IndexError\<close>, with no partial result.\<close>

theorem split_index_error:
  "\<exists>i\<in>set idx. \<not> valid_index (length (target d)) i \<Longrightarrow> split_data d idx = Inl IndexError"
  by (rule split_data_invalid) (simp add: list_all_iff)

theorem split_index_error_witness:
  "split_data \<lparr>data = [[1], [2], [3]], target = [0, 1, 2], feature_names = [], target_names = []\<rparr> [0, 3] = Inl IndexError \<and> split_data \<lparr>data = [[1], [2], [3]], target = [0, 1, 2], feature_names = [], target_names = []\<rparr> [-4] = Inl IndexError"
proof -
  have h: "\<exists>i\<in>set [0, 3]. \<not> valid_index (length (target \<lparr>data = [[1], [2], [3]], target = [0, 1, 2], feature_names = [], target_names = []\<rparr>)) i"
    by (simp add: valid_index_def)
  have h': "\<exists>i\<in>set [-4]. \<not> valid_index (length (target \<lparr>data = [[1], [2], [3]], target = [0, 1, 2], feature_names = [], target_names = []\<rparr>)) i"
    by (simp add: valid_index_def)
  show ?thesis using split_index_error [OF h] split_index_error [OF h'] by blast
qed

text \<open>C27. The training part keeps the order of the data set: it is a subsequence of the
  labels and of the rows.\<close>

theorem split_keeps_order:
  assumes "length (data d) = length (target d)" and "split_data d idx = Inr s"
  shows "subseq (train_target s) (target d) \<and> subseq (train_data s) (data d)"
  using assms by (auto simp: split_data_Inr subseq_conv_nths)

theorem split_keeps_order_witness:
  "length (data \<lparr>data = [[1], [2], [3]], target = [0, 1, 2], feature_names = [], target_names = []\<rparr>) = length (target \<lparr>data = [[1], [2], [3]], target = [0, 1, 2], feature_names = [], target_names = []\<rparr>) \<and> split_data \<lparr>data = [[1], [2], [3]], target = [0, 1, 2], feature_names = [], target_names = []\<rparr> [0, 2] = Inr \<lparr>train_target = [1], train_data = [[2]], test_target = [0, 2], test_data = [[1], [3]]\<rparr> \<and>
   subseq (train_target \<lparr>train_target = [1], train_data = [[2]], test_target = [0, 2], test_data = [[1], [3]]\<rparr>) (target \<lparr>data = [[1], [2], [3]], target = [0, 1, 2], feature_names = [], target_names = []\<rparr>) \<and> subseq (train_data \<lparr>train_target = [1], train_data = [[2]], test_target = [0, 2], test_data = [[1], [3]]\<rparr>) (data \<lparr>data = [[1], [2], [3]], target = [0, 1, 2], feature_names = [], target_names = []\<rparr>)"
proof -
  have h1: "length (data \<lparr>data = [[1], [2], [3]], target = [0, 1, 2], feature_names = [], target_names = []\<rparr>) = length (target \<lparr>data = [[1], [2], [3]], target = [0, 1, 2], feature_names = [], target_names = []\<rparr>)" by simp
  have h2: "split_data \<lparr>data = [[1], [2], [3]], target = [0, 1, 2], feature_names = [], target_names = []\<rparr> [0, 2] = Inr \<lparr>train_target = [1], train_data = [[2]], test_target = [0, 2], test_data = [[1], [3]]\<rparr>" by code_simp
  show ?thesis using split_keeps_order [OF h1 h2] h1 h2 by blast
qed

end
