(* ===== verification/Classifier.thy ===== *)
theory Classifier
  imports Partition
begin

text \<open>
  The classifier the script builds and uses (src/assets/code/decision_tree_example.py,
  lines 22-23 and 27). The script only sees it through the library's interface, so the
  interface is a record of operations \<open>'m ml_lib\<close> over an abstract model type
  \<open>'m\<close>: \<open>lib_fit X y\<close> is \<open>DecisionTreeClassifier().fit(X, y)\<close> and
  \<open>lib_predict m X\<close> is \<open>clf.predict(X)\<close>, both raising as values.
  \<open>lib_contract\<close> is what the script relies on: fitting consistent, non-empty data
  succeeds, and the fitted model predicts, for every non-empty batch of rows of the
  training width, one label per row, each a label seen in training.

  The implementation side is scikit-learn's tree model: a fitted classifier holds
  \<open>classes_\<close> (the sorted distinct training labels), \<open>n_features_in_\<close> and a
  binary tree (\<open>tree_\<close>) whose inner nodes test \<open>x[feature] \<le> threshold\<close> (true
  goes left) and whose nodes all hold a per-class weight vector (\<open>tree_.value\<close>); \<open>predict\<close> validates the batch (at least
  one row, each of the training width, else \<open>ValueError\<close>) and returns
  \<open>classes_[argmax(value)]\<close> of the leaf each row reaches, \<open>argmax\<close> taking the first
  maximal entry. The tree builder run by \<open>fit\<close> is in \<open>Splitter\<close> and \<open>Cart\<close>.
\<close>

record 'm ml_lib =
  lib_fit :: "real list list \<Rightarrow> nat list \<Rightarrow> 'm result"
  lib_predict :: "'m \<Rightarrow> real list list \<Rightarrow> nat list result"

definition rows_of_width :: "nat \<Rightarrow> real list list \<Rightarrow> bool" where
  "rows_of_width w X \<longleftrightarrow> list_all (\<lambda>r. length r = w) X"

definition fit_input_ok :: "real list list \<Rightarrow> nat list \<Rightarrow> bool" where
  "fit_input_ok X y \<longleftrightarrow>
     X \<noteq> [] \<and> hd X \<noteq> [] \<and> length X = length y \<and> rows_of_width (length (hd X)) X"

definition lib_contract :: "'m ml_lib \<Rightarrow> bool" where
  "lib_contract lib \<longleftrightarrow>
     (\<forall>X y. fit_input_ok X y \<longrightarrow>
        (\<exists>m. lib_fit lib X y = Inr m \<and>
           (\<forall>Z. Z \<noteq> [] \<longrightarrow> rows_of_width (length (hd X)) Z \<longrightarrow>
              (\<exists>ys. lib_predict lib m Z = Inr ys \<and> length ys = length Z \<and> set ys \<subseteq> set y))))"

datatype dtree = Leaf "nat list" | Split nat real "nat list" dtree dtree

record tree_clf =
  classes :: "nat list"
  n_features_in :: nat
  root :: dtree

fun argmax_aux :: "nat \<Rightarrow> nat \<Rightarrow> nat \<Rightarrow> nat list \<Rightarrow> nat" where
  "argmax_aux i bi bv [] = bi"
| "argmax_aux i bi bv (x # xs) =
     (if bv < x then argmax_aux (Suc i) i x xs else argmax_aux (Suc i) bi bv xs)"

definition np_argmax :: "nat list \<Rightarrow> nat result" where
  "np_argmax v = (case v of [] \<Rightarrow> Inl ValueError | x # xs \<Rightarrow> Inr (argmax_aux 1 0 x xs))"

fun tree_leaf :: "dtree \<Rightarrow> real list \<Rightarrow> nat list" where
  "tree_leaf (Leaf v) x = v"
| "tree_leaf (Split f t v l r) x = (if x ! f \<le> t then tree_leaf l x else tree_leaf r x)"

definition predict_row :: "tree_clf \<Rightarrow> real list \<Rightarrow> nat result" where
  "predict_row c x = res_bind (np_argmax (tree_leaf (root c) x)) (\<lambda>k. Inr (classes c ! k))"

definition tree_predict :: "tree_clf \<Rightarrow> real list list \<Rightarrow> nat list result" where
  "tree_predict c X =
     (if X = [] \<or> \<not> rows_of_width (n_features_in c) X then Inl ValueError
      else res_map_list (predict_row c) X)"

definition class_counts :: "nat list \<Rightarrow> nat list \<Rightarrow> nat list" where
  "class_counts cs y = map (\<lambda>c. count_list y c) cs"

fun wf_tree :: "nat \<Rightarrow> nat \<Rightarrow> dtree \<Rightarrow> bool" where
  "wf_tree k nf (Leaf v) \<longleftrightarrow> length v = k"
| "wf_tree k nf (Split f t v l r) \<longleftrightarrow> f < nf \<and> length v = k \<and> wf_tree k nf l \<and> wf_tree k nf r"

definition wf_clf :: "tree_clf \<Rightarrow> bool" where
  "wf_clf c \<longleftrightarrow> classes c \<noteq> [] \<and> wf_tree (length (classes c)) (n_features_in c) (root c)"

fun tree_size :: "dtree \<Rightarrow> nat" where
  "tree_size (Leaf v) = 1"
| "tree_size (Split f t v l r) = Suc (tree_size l + tree_size r)"

fun tree_leaves :: "dtree \<Rightarrow> nat" where
  "tree_leaves (Leaf v) = 1"
| "tree_leaves (Split f t v l r) = tree_leaves l + tree_leaves r"

lemma lib_contractD:
  assumes "lib_contract lib" and "fit_input_ok X y"
  shows "\<exists>m. lib_fit lib X y = Inr m \<and>
           (\<forall>Z. Z \<noteq> [] \<longrightarrow> rows_of_width (length (hd X)) Z \<longrightarrow>
              (\<exists>ys. lib_predict lib m Z = Inr ys \<and> length ys = length Z \<and> set ys \<subseteq> set y))"
  using assms unfolding lib_contract_def by blast

subsection \<open>argmax\<close>

lemma argmax_aux_bound: "bi < i \<Longrightarrow> argmax_aux i bi bv xs < i + length xs"
  by (induction i bi bv xs rule: argmax_aux.induct) auto

lemma np_argmax_lt: "np_argmax v = Inr k \<Longrightarrow> k < length v"
  using argmax_aux_bound [of 0 1] by (auto simp: np_argmax_def split: list.splits)

lemma np_argmax_nonempty: "v \<noteq> [] \<Longrightarrow> \<exists>k. np_argmax v = Inr k"
  by (auto simp: np_argmax_def split: list.splits)

lemma argmax_aux_spec:
  assumes "i = length ps" "bi < i" "ps ! bi = bv" "\<forall>j<i. ps ! j \<le> bv" "\<forall>j<bi. ps ! j < bv"
  shows "argmax_aux i bi bv xs < length (ps @ xs) \<and>
         (\<forall>j<length (ps @ xs). (ps @ xs) ! j \<le> (ps @ xs) ! argmax_aux i bi bv xs) \<and>
         (\<forall>j<argmax_aux i bi bv xs. (ps @ xs) ! j < (ps @ xs) ! argmax_aux i bi bv xs)"
  using assms
proof (induction xs arbitrary: ps i bi bv)
  case Nil
  then show ?case by auto
next
  case (Cons x xs)
  let ?ps = "ps @ [x]"
  show ?case
  proof (cases "bv < x")
    case True
    have "i = length ?ps - 1" "?ps ! i = x" using Cons.prems by auto
    moreover have "\<forall>j<Suc i. ?ps ! j \<le> x" "\<forall>j<i. ?ps ! j < x"
      using Cons.prems True by (auto simp: nth_append less_Suc_eq)
    ultimately have "argmax_aux (Suc i) i x xs < length (?ps @ xs) \<and>
         (\<forall>j<length (?ps @ xs). (?ps @ xs) ! j \<le> (?ps @ xs) ! argmax_aux (Suc i) i x xs) \<and>
         (\<forall>j<argmax_aux (Suc i) i x xs. (?ps @ xs) ! j < (?ps @ xs) ! argmax_aux (Suc i) i x xs)"
      using Cons.IH [of "Suc i" ?ps i x] Cons.prems(1) by simp
    then show ?thesis using True by simp
  next
    case False
    have "Suc i = length ?ps" "bi < Suc i" "?ps ! bi = bv"
      using Cons.prems by (auto simp: nth_append)
    moreover have "\<forall>j<Suc i. ?ps ! j \<le> bv" "\<forall>j<bi. ?ps ! j < bv"
      using Cons.prems False by (auto simp: nth_append less_Suc_eq)
    ultimately have "argmax_aux (Suc i) bi bv xs < length (?ps @ xs) \<and>
         (\<forall>j<length (?ps @ xs). (?ps @ xs) ! j \<le> (?ps @ xs) ! argmax_aux (Suc i) bi bv xs) \<and>
         (\<forall>j<argmax_aux (Suc i) bi bv xs. (?ps @ xs) ! j < (?ps @ xs) ! argmax_aux (Suc i) bi bv xs)"
      using Cons.IH [of "Suc i" ?ps bi bv] by blast
    then show ?thesis using False by simp
  qed
qed

lemma np_argmax_first_max:
  assumes "np_argmax v = Inr k"
  shows "k < length v \<and> (\<forall>j<length v. v ! j \<le> v ! k) \<and> (\<forall>j<k. v ! j < v ! k)"
proof (cases v)
  case Nil
  with assms show ?thesis by (simp add: np_argmax_def)
next
  case (Cons x xs)
  with assms have k: "k = argmax_aux 1 0 x xs" by (simp add: np_argmax_def)
  show ?thesis
    using argmax_aux_spec [of 1 "[x]" 0 x xs] k Cons by simp
qed

subsection \<open>Prediction\<close>

lemma tree_leaf_length: "wf_tree k nf t \<Longrightarrow> length (tree_leaf t x) = k"
  by (induction t) auto

lemma predict_row_class:
  assumes "wf_clf c"
  shows "\<exists>l. predict_row c x = Inr l \<and> l \<in> set (classes c)"
proof -
  let ?v = "tree_leaf (root c) x"
  have ne: "classes c \<noteq> []" and wf: "wf_tree (length (classes c)) (n_features_in c) (root c)"
    using assms by (simp_all add: wf_clf_def)
  have len: "length ?v = length (classes c)" using tree_leaf_length [OF wf] .
  have "?v \<noteq> []" using len ne by auto
  then obtain k where k: "np_argmax ?v = Inr k"
    using np_argmax_nonempty [of ?v] by blast
  then have "k < length (classes c)" using np_argmax_lt len by fastforce
  with k show ?thesis by (simp add: predict_row_def)
qed

lemma res_map_list_into:
  assumes "\<And>x. x \<in> set xs \<Longrightarrow> \<exists>y. f x = Inr y \<and> y \<in> A"
  shows "\<exists>ys. res_map_list f xs = Inr ys \<and> length ys = length xs \<and> set ys \<subseteq> A"
  using assms by (induction xs) fastforce+

lemma tree_predict_ok:
  assumes "wf_clf c" and "X \<noteq> []" and "rows_of_width (n_features_in c) X"
  shows "\<exists>ys. tree_predict c X = Inr ys \<and> length ys = length X \<and> set ys \<subseteq> set (classes c)"
proof -
  have "\<exists>ys. res_map_list (predict_row c) X = Inr ys \<and> length ys = length X \<and> set ys \<subseteq> set (classes c)"
    by (rule res_map_list_into) (use predict_row_class [OF assms(1)] in blast)
  then show ?thesis using assms by (simp add: tree_predict_def)
qed



end
