(* ===== verification/Report.thy ===== *)
theory Report
  imports Prelude
begin

text \<open>
  The console output of the script (src/assets/code/decision_tree_example.py, lines 26-27):
  \<open>print(a)\<close> of a one-dimensional integer numpy array writes \<open>str(a)\<close> and a newline.
  \<open>nat_str\<close> is Python's \<open>str\<close> of a non-negative integer (its decimal digits).
  \<open>np_array_str\<close> is numpy's \<open>array_str\<close> (\<open>array2string\<close> with separator \<open>' '\<close>)
  under the default print options: every element is right-justified to the width of the
  longest of \<open>str(max)\<close> and \<open>str(min)\<close> (\<open>IntegerFormat\<close>, \<open>rjust\<close>, \<open>max_str_len\<close>);
  \<open>_formatArray\<close> (\<open>format_array\<close>, its loop \<open>format_row\<close> and \<open>_extendLine\<close> as
  \<open>extend_line\<close>) joins them with one space and wraps the text at \<open>linewidth\<close> = 75
  with a hanging indent of one space; an array of more than \<open>threshold\<close> = 1000 elements
  is summarised to its first and last three elements around \<open>'...'\<close>.
  \<open>parse_array\<close> reads a printed array back (Python's \<open>str.split()\<close> between the
  brackets). Theorems: the round trip for arrays up to the threshold, the summary beyond
  it, the alignment of the columns, and that no printed line exceeds \<open>linewidth\<close>.
\<close>

definition digit_char :: "nat \<Rightarrow> char" where
  "digit_char d = char_of (48 + d)"

fun nat_str :: "nat \<Rightarrow> string" where
  "nat_str n = (if n < 10 then [digit_char n] else nat_str (n div 10) @ [digit_char (n mod 10)])"

declare nat_str.simps [simp del]

definition rjust :: "nat \<Rightarrow> string \<Rightarrow> string" where
  "rjust w s = replicate (w - length s) CHR '' '' @ s"

definition max_str_len :: "nat list \<Rightarrow> nat" where
  "max_str_len xs =
     (if xs = [] then 0
      else max (length (nat_str (Max (set xs)))) (length (nat_str (Min (set xs)))))"

text \<open>numpy's print options at their defaults (\<open>np.get_printoptions()\<close>).\<close>

definition np_linewidth :: nat where
  "np_linewidth = 75"

definition np_threshold :: nat where
  "np_threshold = 1000"

definition np_edgeitems :: nat where
  "np_edgeitems = 3"

text \<open>Python's \<open>str.isspace\<close> on one character of the Latin-1 range, and \<open>str.rstrip()\<close>.\<close>

definition py_isspace :: "char \<Rightarrow> bool" where
  "py_isspace c =
     (let k = (of_char c :: nat)
      in k = 32 \<or> (9 \<le> k \<and> k \<le> 13) \<or> (28 \<le> k \<and> k \<le> 31) \<or> k = 133 \<or> k = 160)"

definition rstrip :: "string \<Rightarrow> string" where
  "rstrip s = rev (dropWhile py_isspace (rev s))"

definition newline :: char where
  "newline = CHR 0x0A"

text \<open>numpy's \<open>_extendLine\<close>: append a word to the current line, or first close the line
  (right-stripped, with a newline) and start a new one with the hanging indent, when the
  word would pass \<open>line_width\<close> and the line holds more than the indent.\<close>

definition extend_line :: "string \<Rightarrow> string \<Rightarrow> string \<Rightarrow> nat \<Rightarrow> string \<Rightarrow> string \<times> string" where
  "extend_line s line word line_width next_line_prefix =
     (if line_width < length line + length word \<and> length next_line_prefix < length line
      then (s @ rstrip line @ [newline], next_line_prefix @ word)
      else (s, line @ word))"

text \<open>The loop of \<open>_formatArray\<close> over the words of a one-dimensional array: every word
  but the last is followed by the separator \<open>' '\<close>.\<close>

fun format_row :: "nat \<Rightarrow> string \<Rightarrow> string \<Rightarrow> string \<Rightarrow> string list \<Rightarrow> string \<times> string" where
  "format_row w ind s line [] = (s, line)"
| "format_row w ind s line [x] = extend_line s line x w ind"
| "format_row w ind s line (x # y # zs) =
     (case extend_line s line x w ind of (s', l') \<Rightarrow> format_row w ind s' (l' @ '' '') (y # zs))"

text \<open>\<open>_formatArray\<close> for a one-dimensional array: the hanging indent and the first line are
  \<open>' '\<close>, the width of an element is \<open>linewidth - len(']')\<close>, and the result replaces the
  leading indent by \<open>'['\<close> and closes with \<open>']'\<close>.\<close>

definition format_array :: "string list \<Rightarrow> string" where
  "format_array words =
     (case format_row (np_linewidth - 1) '' '' [] '' '' words of
        (s, line) \<Rightarrow> ''['' @ drop 1 (s @ line) @ '']'')"

text \<open>\<open>array_str\<close> of an integer array: \<open>'[]'\<close> for an empty array; an array of more than
  \<open>threshold\<close> elements is summarised to its first and last \<open>edgeitems\<close> elements around
  \<open>'...'\<close>, and then only these determine the width of \<open>IntegerFormat\<close>.\<close>

definition np_array_str :: "nat list \<Rightarrow> string" where
  "np_array_str xs =
     (if xs = [] then ''[]''
      else
        let summarise = np_threshold < length xs;
            lead = take np_edgeitems xs;
            trail = drop (length xs - np_edgeitems) xs;
            data = (if summarise then lead @ trail else xs);
            fmt = (\<lambda>x. rjust (max_str_len data) (nat_str x))
        in format_array
             (if summarise \<and> 2 * np_edgeitems < length xs
              then map fmt lead @ [''...''] @ map fmt trail
              else map fmt xs))"

text \<open>Reading a printed array back: Python's \<open>str.split()\<close> of the text between the brackets,
  each token read as a decimal numeral.\<close>

fun tokens :: "string \<Rightarrow> string \<Rightarrow> string list" where
  "tokens cur [] = (if cur = [] then [] else [rev cur])"
| "tokens cur (c # cs) =
     (if py_isspace c then (if cur = [] then tokens [] cs else rev cur # tokens [] cs)
      else tokens (c # cur) cs)"

definition digit_val :: "char \<Rightarrow> nat option" where
  "digit_val c = (let k = (of_char c :: nat) in if 48 \<le> k \<and> k \<le> 57 then Some (k - 48) else None)"

definition parse_nat :: "string \<Rightarrow> nat option" where
  "parse_nat s =
     (if s = [] \<or> (\<exists>c\<in>set s. digit_val c = None) then None
      else Some (foldl (\<lambda>n c. 10 * n + the (digit_val c)) 0 s))"

definition parse_array :: "string \<Rightarrow> nat list option" where
  "parse_array s =
     (if length s < 2 \<or> hd s \<noteq> CHR ''['' \<or> last s \<noteq> CHR '']'' then None
      else let ts = tokens [] (butlast (tl s))
           in if list_all (\<lambda>t. parse_nat t \<noteq> None) ts then Some (map (the \<circ> parse_nat) ts)
              else None)"

text \<open>The lines of a text: Python's \<open>str.split\<close> at every newline character.\<close>

fun split_lines :: "string \<Rightarrow> string list" where
  "split_lines [] = [[]]"
| "split_lines (c # cs) =
     (if c = newline then [] # split_lines cs
      else (case split_lines cs of [] \<Rightarrow> [[c]] | l # ls \<Rightarrow> (c # l) # ls))"

text \<open>The state of the loop: the finished lines are within \<open>W\<close> and end in a newline, and
  the current line is within \<open>W\<close> once its trailing separator is stripped.\<close>

definition lines_within :: "nat \<Rightarrow> string \<Rightarrow> string \<Rightarrow> bool" where
  "lines_within W s line \<longleftrightarrow>
     list_all (\<lambda>l. length l \<le> W) (butlast (split_lines s)) \<and> last (split_lines s) = [] \<and>
     length (rstrip line) \<le> W \<and> newline \<notin> set line"

subsection \<open>Decimal digits\<close>

lemma digit_val_digit_char: "d < 10 \<Longrightarrow> digit_val (digit_char d) = Some d"
  by (simp add: digit_val_def digit_char_def Let_def)

lemma digit_not_space: "digit_val c \<noteq> None \<Longrightarrow> \<not> py_isspace c"
  by (auto simp: digit_val_def py_isspace_def Let_def split: if_splits)

lemma nat_str_nonempty [simp]: "nat_str n \<noteq> []"
  by (subst nat_str.simps) simp

lemma nat_str_digits: "set (nat_str n) \<subseteq> digit_char ` {..<10}"
proof (induction n rule: nat_str.induct)
  case (1 n)
  then show ?case by (subst nat_str.simps) auto
qed

lemma nat_str_no_space: "c \<in> set (nat_str n) \<Longrightarrow> \<not> py_isspace c"
  using nat_str_digits [of n] digit_val_digit_char digit_not_space by fastforce

lemma parse_nat_nat_str: "parse_nat (nat_str n) = Some n"
proof (induction n rule: nat_str.induct)
  case (1 n)
  have dv: "\<forall>c\<in>set (nat_str m). digit_val c \<noteq> None" for m
    using nat_str_digits [of m] digit_val_digit_char by fastforce
  show ?case
  proof (cases "n < 10")
    case True
    then show ?thesis
      by (simp add: nat_str.simps [of n] parse_nat_def digit_val_digit_char)
  next
    case False
    then have IH: "foldl (\<lambda>n c. 10 * n + the (digit_val c)) 0 (nat_str (n div 10)) = n div 10"
      using "1.IH" dv [of "n div 10"] by (simp add: parse_nat_def split: if_splits)
    have "foldl (\<lambda>n c. 10 * n + the (digit_val c)) 0 (nat_str n) = 10 * (n div 10) + n mod 10"
      using False IH by (simp add: nat_str.simps [of n] digit_val_digit_char)
    then show ?thesis using dv [of n] by (simp add: parse_nat_def)
  qed
qed

lemma length_nat_str:
  "length (nat_str n) = (if n < 10 then 1 else Suc (length (nat_str (n div 10))))"
  by (subst nat_str.simps) simp

lemma nat_str_length_mono: "m \<le> n \<Longrightarrow> length (nat_str m) \<le> length (nat_str n)"
proof (induction n arbitrary: m rule: nat_str.induct)
  case (1 n)
  show ?case
  proof (cases "m < 10")
    case True
    then have "length (nat_str m) = 1" by (simp only: length_nat_str [of m] if_True)
    moreover have "1 \<le> length (nat_str n)" using nat_str_nonempty [of n] by (cases "nat_str n") auto
    ultimately show ?thesis by simp
  next
    case False
    with "1.prems" have n: "\<not> n < 10" and "m div 10 \<le> n div 10" by (auto intro: div_le_mono)
    then have "length (nat_str (m div 10)) \<le> length (nat_str (n div 10))"
      using "1.IH" by blast
    then show ?thesis using False n by (simp only: length_nat_str [of m] length_nat_str [of n] if_False Suc_le_mono)
  qed
qed

lemma length_rjust: "length (rjust w s) = max w (length s)"
  by (simp add: rjust_def)

lemma max_str_len_ge: "x \<in> set xs \<Longrightarrow> length (nat_str x) \<le> max_str_len xs"
proof -
  assume x: "x \<in> set xs"
  then have "x \<le> Max (set xs)" by simp
  then have "length (nat_str x) \<le> length (nat_str (Max (set xs)))"
    by (rule nat_str_length_mono)
  then show ?thesis using x by (auto simp: max_str_len_def)
qed

lemma max_str_len_le:
  "(\<And>x. x \<in> set xs \<Longrightarrow> length (nat_str x) \<le> k) \<Longrightarrow> max_str_len xs \<le> k"
  by (simp add: max_str_len_def)

subsection \<open>Whitespace and tokens\<close>

lemma py_isspace_space [simp]: "py_isspace CHR '' ''"
  by (simp add: py_isspace_def)

lemma py_isspace_newline [simp]: "py_isspace newline"
  by (simp add: py_isspace_def newline_def)

lemma rstrip_snoc_space [simp]: "rstrip (l @ '' '') = rstrip l"
  by (simp add: rstrip_def)

lemma rstrip_decomp: "\<exists>p. rstrip l @ p = l \<and> (\<forall>c\<in>set p. py_isspace c)"
proof -
  have "rev l = takeWhile py_isspace (rev l) @ dropWhile py_isspace (rev l)" by simp
  then have "rstrip l @ rev (takeWhile py_isspace (rev l)) = l"
    unfolding rstrip_def by (metis rev_append rev_rev_ident)
  moreover have "\<forall>c\<in>set (rev (takeWhile py_isspace (rev l))). py_isspace c"
    by (auto dest: set_takeWhileD)
  ultimately show ?thesis by blast
qed

lemma tokens_sep:
  "py_isspace c \<Longrightarrow> tokens cur (a @ c # b) = tokens cur a @ tokens [] b"
  by (induction a arbitrary: cur) auto

lemma tokens_spaces:
  "\<forall>c\<in>set p. py_isspace c \<Longrightarrow> tokens [] (p @ r) = tokens [] r"
  by (induction p) auto

lemma tokens_trailing:
  assumes "\<forall>c\<in>set p. py_isspace c"
  shows "tokens [] (a @ p) = tokens [] a"
proof (cases p)
  case (Cons c p')
  then have "tokens [] (a @ p) = tokens [] a @ tokens [] (p' @ [])"
    using assms by (simp add: tokens_sep)
  also have "\<dots> = tokens [] a" using assms Cons tokens_spaces [of p' "[]"] by simp
  finally show ?thesis .
qed simp

lemma tokens_word:
  "\<forall>c\<in>set w. \<not> py_isspace c \<Longrightarrow> tokens cur (w @ rest) = tokens (rev w @ cur) rest"
  by (induction w arbitrary: cur) auto

lemma tokens_rjust: "tokens [] (rjust w (nat_str x)) = [nat_str x]"
  using tokens_word [of "nat_str x" "[]" "[]"] nat_str_no_space [of _ x]
  by (simp add: rjust_def tokens_spaces)

lemma tokens_rstrip: "tokens [] (a @ rstrip l) = tokens [] (a @ l)"
  using rstrip_decomp [of l] tokens_trailing by (metis append.assoc)

subsection \<open>Line wrapping keeps the words\<close>

lemma extend_line_tokens:
  assumes "extend_line s line w W ind = (s', l')" "line \<noteq> []" "py_isspace (last line)"
    "\<forall>c\<in>set ind. py_isspace c"
  shows "tokens [] (s' @ l') = tokens [] (s @ line) @ tokens [] w"
proof -
  obtain a c where ac: "line = a @ [c]" using assms(2) rev_exhaust by blast
  then have c: "py_isspace c" using assms(3) by simp
  have sl: "tokens [] (s @ line) = tokens [] (s @ a)"
    using tokens_trailing [of "[c]" "s @ a"] ac c by simp
  show ?thesis
  proof (cases "W < length line + length w \<and> length ind < length line")
    case True
    then have "s' @ l' = (s @ rstrip line) @ newline # (ind @ w)"
      using assms(1) by (simp add: extend_line_def)
    then show ?thesis
      using assms(4) by (simp add: tokens_sep tokens_spaces tokens_rstrip flip: append_assoc)
  next
    case False
    then have "s' = s" "l' = line @ w"
      using assms(1) unfolding extend_line_def by (auto split: if_split_asm)
    then have "s' @ l' = (s @ a) @ c # w" using ac by simp
    then show ?thesis using sl tokens_sep [OF c, of "[]" "s @ a" w] by simp
  qed
qed

lemma format_row_tokens:
  "format_row W ind s line ws = (s', l') \<Longrightarrow> line \<noteq> [] \<Longrightarrow> py_isspace (last line) \<Longrightarrow>
   \<forall>c\<in>set ind. py_isspace c \<Longrightarrow>
   tokens [] (s' @ l') = tokens [] (s @ line) @ concat (map (tokens []) ws)"
proof (induction W ind s line ws arbitrary: s' l' rule: format_row.induct)
  case (2 w ind s line x)
  then show ?case by (simp add: extend_line_tokens)
next
  case (3 w ind s line x y zs)
  obtain s1 l1 where e: "extend_line s line x w ind = (s1, l1)" by fastforce
  have f: "format_row w ind s1 (l1 @ '' '') (y # zs) = (s', l')" using "3.prems"(1) e by simp
  have "tokens [] (s' @ l') = tokens [] (s1 @ l1 @ '' '') @ concat (map (tokens []) (y # zs))"
    using "3.IH" [OF e [symmetric] f] "3.prems"(4) by simp
  also have "tokens [] (s1 @ l1 @ '' '') = tokens [] (s @ line) @ tokens [] x"
    using extend_line_tokens [OF e "3.prems"(2-4)] tokens_trailing [of "'' ''" "s1 @ l1"] by simp
  finally show ?case by simp
qed simp

lemma extend_line_hd:
  assumes "extend_line s line w W ind = (s', l')" "s @ line \<noteq> []"
    "s = [] \<Longrightarrow> length line \<le> length ind \<or> (\<exists>c\<in>set line. \<not> py_isspace c)"
    "\<exists>c\<in>set w. \<not> py_isspace c"
  shows "s' @ l' \<noteq> [] \<and> hd (s' @ l') = hd (s @ line) \<and> (s' = [] \<longrightarrow> (\<exists>c\<in>set l'. \<not> py_isspace c))"
proof (cases "W < length line + length w \<and> length ind < length line")
  case True
  then have e: "s' = s @ rstrip line @ [newline]" "l' = ind @ w"
    using assms(1) by (simp_all add: extend_line_def)
  have "s @ rstrip line \<noteq> [] \<and> hd (s @ rstrip line) = hd (s @ line)"
  proof (cases s)
    case Nil
    obtain p where p: "rstrip line @ p = line" "\<forall>c\<in>set p. py_isspace c"
      using rstrip_decomp by blast
    have r: "rstrip line \<noteq> []"
    proof
      assume "rstrip line = []"
      then have "\<forall>c\<in>set line. py_isspace c" using p by simp
      then show False using assms(3) Nil True by auto
    qed
    have "hd (rstrip line @ p) = hd line" using p(1) by simp
    then show ?thesis using Nil r by simp
  qed simp
  then have "hd (s @ rstrip line @ newline # ind @ w) = hd (s @ line)"
    using hd_append2 [of "s @ rstrip line" "newline # ind @ w"] by simp
  then show ?thesis using e by simp
next
  case False
  then have e: "s' = s" "l' = line @ w"
    using assms(1) unfolding extend_line_def by (auto split: if_split_asm)
  have "hd (s @ line @ w) = hd (s @ line)" using assms(2) hd_append2 [of "s @ line" w] by simp
  moreover have "\<exists>c\<in>set l'. \<not> py_isspace c" using assms(4) e(2) by auto
  moreover have "s' @ l' \<noteq> []" using e assms(2) by auto
  ultimately show ?thesis using e by simp
qed

lemma format_row_hd:
  "format_row W ind s line ws = (s', l') \<Longrightarrow> s @ line \<noteq> [] \<Longrightarrow>
   (s = [] \<Longrightarrow> length line \<le> length ind \<or> (\<exists>c\<in>set line. \<not> py_isspace c)) \<Longrightarrow>
   \<forall>w\<in>set ws. \<exists>c\<in>set w. \<not> py_isspace c \<Longrightarrow>
   s' @ l' \<noteq> [] \<and> hd (s' @ l') = hd (s @ line)"
proof (induction W ind s line ws arbitrary: s' l' rule: format_row.induct)
  case (2 w ind s line x)
  then show ?case using extend_line_hd [of s line x w ind s' l'] by simp
next
  case (3 w ind s line x y zs)
  obtain s1 l1 where e: "extend_line s line x w ind = (s1, l1)" by fastforce
  have h: "s1 @ l1 \<noteq> [] \<and> hd (s1 @ l1) = hd (s @ line) \<and> (s1 = [] \<longrightarrow> (\<exists>c\<in>set l1. \<not> py_isspace c))"
    using extend_line_hd [OF e] "3.prems" by simp
  have "format_row w ind s1 (l1 @ '' '') (y # zs) = (s', l')" using "3.prems"(1) e by simp
  moreover have "s1 @ l1 @ '' '' \<noteq> []" using h by simp
  moreover have "hd (s1 @ l1 @ '' '') = hd (s1 @ l1)" using h hd_append2 [of "s1 @ l1" "'' ''"] by simp
  moreover have "\<exists>c\<in>set (l1 @ '' ''). \<not> py_isspace c" if "s1 = []" using h that by auto
  moreover have "\<forall>w\<in>set (y # zs). \<exists>c\<in>set w. \<not> py_isspace c" using "3.prems"(4) by simp
  ultimately show ?case using "3.IH" [OF e [symmetric]] h by simp
qed simp

subsection \<open>Line wrapping keeps every line within the width\<close>

lemma split_lines_nonempty [simp]: "split_lines s \<noteq> []"
  by (induction s) (auto split: list.split)

lemma split_lines_no_newline: "newline \<notin> set b \<Longrightarrow> split_lines b = [b]"
  by (induction b) auto

lemma split_lines_append_newline:
  "split_lines (a @ newline # b) = split_lines a @ split_lines b"
  by (induction a) (auto split: list.split)

lemma split_lines_append:
  "newline \<notin> set b \<Longrightarrow> split_lines (a @ b) = butlast (split_lines a) @ [last (split_lines a) @ b]"
proof (induction a)
  case Nil
  then show ?case by (simp add: split_lines_no_newline)
next
  case (Cons c a)
  obtain l ls where "split_lines a = l # ls" by (cases "split_lines a") auto
  then show ?case using Cons by (cases ls) auto
qed

lemma length_rstrip: "length (rstrip l) \<le> length l"
  using length_dropWhile_le [of py_isspace "rev l"] by (simp add: rstrip_def)

lemma set_rstrip: "set (rstrip l) \<subseteq> set l"
  by (auto simp: rstrip_def dest: set_dropWhileD)

lemma lines_within_init: "lines_within W [] '' ''"
  by (simp add: lines_within_def rstrip_def newline_def)

lemma extend_line_within:
  assumes "extend_line s line w W ind = (s', l')" "lines_within W s line"
    "newline \<notin> set ind" "newline \<notin> set w" "length ind + length w \<le> W"
  shows "lines_within W s' l' \<and> length l' \<le> W"
proof (cases "W < length line + length w \<and> length ind < length line")
  case True
  then have e: "s' = s @ rstrip line @ [newline]" "l' = ind @ w"
    using assms(1) by (simp_all add: extend_line_def)
  have nl: "newline \<notin> set (rstrip line)" using assms(2) set_rstrip by (auto simp: lines_within_def)
  have "split_lines s' = butlast (split_lines s) @ [rstrip line] @ [[]]"
    using e(1) assms(2) split_lines_append [OF nl, of s] split_lines_append_newline [of "s @ rstrip line" "[]"]
    by (simp add: lines_within_def)
  then show ?thesis using e assms(2-5) length_rstrip [of "ind @ w"]
    by (simp add: lines_within_def butlast_append)
next
  case False
  then have e: "s' = s" "l' = line @ w"
    using assms(1) unfolding extend_line_def by (auto split: if_split_asm)
  have "length (line @ w) \<le> W" using False assms(5) by auto
  then show ?thesis using e assms(2,4) length_rstrip [of "line @ w"] by (auto simp: lines_within_def)
qed

lemma format_row_within:
  "format_row W ind s line ws = (s', l') \<Longrightarrow> ws \<noteq> [] \<Longrightarrow> lines_within W s line \<Longrightarrow>
   newline \<notin> set ind \<Longrightarrow> \<forall>w\<in>set ws. newline \<notin> set w \<and> length ind + length w \<le> W \<Longrightarrow>
   list_all (\<lambda>l. length l \<le> W) (split_lines (s' @ l'))"
proof (induction W ind s line ws arbitrary: s' l' rule: format_row.induct)
  case (2 W ind s line x)
  then have h: "lines_within W s' l' \<and> length l' \<le> W"
    using extend_line_within [of s line x W ind s' l'] by simp
  then have "newline \<notin> set l'" by (simp add: lines_within_def)
  then show ?case using h split_lines_append [of l' s'] by (simp add: lines_within_def)
next
  case (3 W ind s line x y zs)
  obtain s1 l1 where e: "extend_line s line x W ind = (s1, l1)" by fastforce
  have f: "format_row W ind s1 (l1 @ '' '') (y # zs) = (s', l')" using "3.prems"(1) e by simp
  have h: "lines_within W s1 l1 \<and> length l1 \<le> W"
    using extend_line_within [OF e "3.prems"(3,4)] "3.prems"(5) by simp
  then have "lines_within W s1 (l1 @ '' '')"
    using length_rstrip [of l1] by (simp add: lines_within_def newline_def)
  then show ?case using "3.IH" [OF e [symmetric] f] "3.prems"(4,5) by simp
qed simp

subsection \<open>The printed array\<close>

lemma split_lines_Cons_within:
  "c \<noteq> newline \<Longrightarrow> d \<noteq> newline \<Longrightarrow>
   list_all (\<lambda>l. length l \<le> k) (split_lines (c # r)) = list_all (\<lambda>l. length l \<le> k) (split_lines (d # r))"
  by (cases "split_lines r") auto

lemma format_array_body:
  assumes "\<forall>w\<in>set ws. \<exists>c\<in>set w. \<not> py_isspace c"
  obtains s l T where "format_row (np_linewidth - 1) '' '' [] '' '' ws = (s, l)"
    "s @ l = CHR '' '' # T" "format_array ws = CHR ''['' # T @ '']''"
proof -
  obtain s l where f: "format_row (np_linewidth - 1) '' '' [] '' '' ws = (s, l)" by fastforce
  have "s @ l \<noteq> [] \<and> hd (s @ l) = CHR '' ''" using format_row_hd [OF f] assms by simp
  then obtain T where T: "s @ l = CHR '' '' # T" by (cases "s @ l") auto
  have "format_array ws = ''['' @ drop 1 (s @ l) @ '']''" using f by (simp add: format_array_def)
  then have "format_array ws = CHR ''['' # T @ '']''" unfolding T by simp
  with f T show ?thesis using that by blast
qed

lemma format_array_tokens:
  assumes "\<forall>w\<in>set ws. \<exists>c\<in>set w. \<not> py_isspace c"
  shows "tokens [] (butlast (tl (format_array ws))) = concat (map (tokens []) ws)"
proof -
  obtain s l T where f: "format_row (np_linewidth - 1) '' '' [] '' '' ws = (s, l)"
    and T: "s @ l = CHR '' '' # T" "format_array ws = CHR ''['' # T @ '']''"
    using format_array_body [OF assms] by blast
  have "tokens [] (s @ l) = concat (map (tokens []) ws)" using format_row_tokens [OF f] by simp
  then show ?thesis using T by (simp add: butlast_append)
qed

lemma format_array_width:
  assumes "ws \<noteq> []" "\<forall>w\<in>set ws. newline \<notin> set w \<and> length w + 2 \<le> np_linewidth"
    "\<forall>w\<in>set ws. \<exists>c\<in>set w. \<not> py_isspace c"
  shows "\<forall>l\<in>set (split_lines (format_array ws)). length l \<le> np_linewidth"
proof -
  obtain s l T where f: "format_row (np_linewidth - 1) '' '' [] '' '' ws = (s, l)"
    and T: "s @ l = CHR '' '' # T" "format_array ws = CHR ''['' # T @ '']''"
    using format_array_body [OF assms(3)] by blast
  have "list_all (\<lambda>l. length l \<le> np_linewidth - 1) (split_lines (s @ l))"
    using format_row_within [OF f assms(1) lines_within_init] assms(2)
    by (auto simp: newline_def np_linewidth_def)
  then have "list_all (\<lambda>l. length l \<le> np_linewidth - 1) (split_lines (CHR ''['' # T))"
    using T(1) split_lines_Cons_within [of "CHR ''[''" "CHR '' ''"] by (simp add: newline_def)
  moreover define L where "L = split_lines (CHR ''['' # T)"
  ultimately have L: "\<forall>l\<in>set L. length l \<le> np_linewidth - 1"
    by (simp add: list_all_iff)
  have E: "split_lines (format_array ws) = butlast L @ [last L @ '']'']"
    unfolding L_def using T(2) split_lines_append [of "'']''" "CHR ''['' # T"] by (simp add: newline_def)
  have "last L \<in> set L" using split_lines_nonempty [of "CHR ''['' # T"] unfolding L_def by (rule last_in_set)
  show ?thesis
  proof
    fix x assume "x \<in> set (split_lines (format_array ws))"
    then consider "x \<in> set (butlast L)" | "x = last L @ '']''" using E by auto
    then show "length x \<le> np_linewidth"
    proof cases
      case 1
      then have "x \<in> set L" by (rule in_set_butlastD)
      then show ?thesis using L by fastforce
    next
      case 2
      then show ?thesis using L \<open>last L \<in> set L\<close> by (simp add: np_linewidth_def)
    qed
  qed
qed

lemma rjust_visible: "\<exists>c\<in>set (rjust w (nat_str x)). \<not> py_isspace c"
proof -
  obtain c cs where "nat_str x = c # cs" by (cases "nat_str x") auto
  then show ?thesis using nat_str_no_space [of c x] by (auto simp: rjust_def)
qed

lemma rjust_no_newline: "newline \<notin> set (rjust w (nat_str x))"
proof -
  have "newline \<noteq> CHR '' ''" by (simp add: newline_def)
  then show ?thesis using nat_str_no_space [of newline x] by (auto simp: rjust_def)
qed

lemma py_isspace_dot: "\<not> py_isspace CHR ''.''"
  by (simp add: py_isspace_def)

lemma tokens_ellipsis: "tokens [] ''...'' = [''...'']"
  by (simp add: py_isspace_dot)

lemma ellipsis_word:
  "newline \<notin> set ''...'' \<and> length ''...'' + 2 \<le> np_linewidth \<and> (\<exists>c\<in>set ''...''. \<not> py_isspace c)"
  by (simp add: py_isspace_dot newline_def np_linewidth_def)

lemma rjust_words:
  assumes "\<forall>x\<in>set ys. length (nat_str x) \<le> 73" "k \<le> 73"
  shows "\<forall>w\<in>set (map (\<lambda>x. rjust k (nat_str x)) ys).
           newline \<notin> set w \<and> length w + 2 \<le> np_linewidth \<and> (\<exists>c\<in>set w. \<not> py_isspace c)"
  using assms rjust_no_newline rjust_visible by (simp add: length_rjust np_linewidth_def)

lemma np_array_str_format:
  "xs \<noteq> [] \<Longrightarrow>
   np_array_str xs = format_array
     (if np_threshold < length xs
      then map (\<lambda>x. rjust (max_str_len (take np_edgeitems xs @ drop (length xs - np_edgeitems) xs)) (nat_str x))
             (take np_edgeitems xs) @ [''...''] @
           map (\<lambda>x. rjust (max_str_len (take np_edgeitems xs @ drop (length xs - np_edgeitems) xs)) (nat_str x))
             (drop (length xs - np_edgeitems) xs)
      else map (\<lambda>x. rjust (max_str_len xs) (nat_str x)) xs)"
  by (simp add: np_array_str_def Let_def np_threshold_def np_edgeitems_def)

lemma parse_array_bracket:
  "tokens [] (butlast (tl s)) = map nat_str xs \<Longrightarrow> 2 \<le> length s \<Longrightarrow> hd s = CHR ''['' \<Longrightarrow>
   last s = CHR '']'' \<Longrightarrow> parse_array s = Some xs"
  by (simp add: parse_array_def list_all_iff parse_nat_nat_str comp_def)

subsection \<open>Properties of the printed line\<close>

text \<open>C31. Printing and reading back: for an array of at most \<open>threshold\<close> elements the text
  \<open>print\<close> writes, wrapped over several lines or not, determines the array, element by
  element and in order.\<close>

theorem np_array_str_roundtrip:
  assumes "length xs \<le> np_threshold"
  shows "parse_array (np_array_str xs) = Some xs"
proof (cases "xs = []")
  case True
  then show ?thesis by (simp add: np_array_str_def parse_array_def)
next
  case False
  let ?ws = "map (\<lambda>x. rjust (max_str_len xs) (nat_str x)) xs"
  have s: "np_array_str xs = format_array ?ws"
    using np_array_str_format [OF False] assms by simp
  have v: "\<forall>w\<in>set ?ws. \<exists>c\<in>set w. \<not> py_isspace c" using rjust_visible by simp
  obtain s l T where "format_array ?ws = CHR ''['' # T @ '']''"
    using format_array_body [OF v] by blast
  moreover have "tokens [] (butlast (tl (format_array ?ws))) = map nat_str xs"
    using format_array_tokens [OF v] by (simp add: tokens_rjust comp_def)
  ultimately show ?thesis using s by (simp add: parse_array_bracket)
qed

theorem np_array_str_roundtrip_witness:
  "np_array_str [0, 1, 2] = ''[0 1 2]'' \<and> parse_array ''[0 1 2]'' = Some [0, 1, 2]"
proof -
  have h: "np_array_str [0, 1, 2] = ''[0 1 2]''" by code_simp
  have "length [0, 1, 2 :: nat] \<le> np_threshold" by (simp add: np_threshold_def)
  then show ?thesis using np_array_str_roundtrip [of "[0, 1, 2]"] h by simp
qed

lemma np_array_str_aligned:
  assumes "x \<in> set xs"
  shows "length (rjust (max_str_len xs) (nat_str x)) = max_str_len xs"
  using max_str_len_ge [OF assms] by (simp add: length_rjust)

text \<open>C32. numpy wraps the printed array: when no label has more than 73 digits, no line
  of the printed text is longer than \<open>linewidth\<close> = 75 characters.\<close>

theorem np_array_str_line_width:
  assumes "\<forall>x\<in>set xs. length (nat_str x) \<le> 73"
  shows "\<forall>l\<in>set (split_lines (np_array_str xs)). length l \<le> np_linewidth"
proof (cases "xs = []")
  case True
  then show ?thesis by (simp add: np_array_str_def np_linewidth_def newline_def)
next
  case False
  let ?t = "take np_edgeitems xs" and ?r = "drop (length xs - np_edgeitems) xs"
  have t: "\<forall>x\<in>set ?t. length (nat_str x) \<le> 73" and r: "\<forall>x\<in>set ?r. length (nat_str x) \<le> 73"
    using assms set_take_subset [of np_edgeitems xs] set_drop_subset [of "length xs - np_edgeitems" xs]
    by blast+
  have d: "max_str_len (?t @ ?r) \<le> 73" "max_str_len xs \<le> 73"
    using assms t r by (auto intro!: max_str_len_le)
  show ?thesis
  proof (cases "np_threshold < length xs")
    case True
    let ?f = "\<lambda>x. rjust (max_str_len (?t @ ?r)) (nat_str x)"
    let ?ws = "map ?f ?t @ [''...''] @ map ?f ?r"
    have s: "np_array_str xs = format_array ?ws" using np_array_str_format [OF False] True by simp
    have "\<forall>w\<in>set ?ws. newline \<notin> set w \<and> length w + 2 \<le> np_linewidth \<and> (\<exists>c\<in>set w. \<not> py_isspace c)"
      using rjust_words [OF t d(1)] rjust_words [OF r d(1)] ellipsis_word
      by (simp only: set_append list.set ball_Un ball_simps ball_empty) simp
    then show ?thesis using s format_array_width [of ?ws] by simp
  next
    case False
    let ?ws = "map (\<lambda>x. rjust (max_str_len xs) (nat_str x)) xs"
    have s: "np_array_str xs = format_array ?ws" using np_array_str_format [OF \<open>xs \<noteq> []\<close>] False by simp
    have "\<forall>w\<in>set ?ws. newline \<notin> set w \<and> length w + 2 \<le> np_linewidth \<and> (\<exists>c\<in>set w. \<not> py_isspace c)"
      using rjust_words [OF assms d(2)] .
    then show ?thesis using s format_array_width [of ?ws] \<open>xs \<noteq> []\<close> by simp
  qed
qed

theorem np_array_str_line_width_witness:
  "split_lines (np_array_str [0..<26]) =
     [''[ 0  1  2  3  4  5  6  7  8  9 10 11 12 13 14 15 16 17 18 19 20 21 22 23'', '' 24 25]''] \<and>
   length ''[ 0  1  2  3  4  5  6  7  8  9 10 11 12 13 14 15 16 17 18 19 20 21 22 23'' \<le> np_linewidth"
proof -
  have s: "split_lines (np_array_str [0..<26]) =
     [''[ 0  1  2  3  4  5  6  7  8  9 10 11 12 13 14 15 16 17 18 19 20 21 22 23'', '' 24 25]'']"
    by code_simp
  have "\<forall>x\<in>set [0..<26]. length (nat_str x) \<le> 73"
  proof
    fix x :: nat assume "x \<in> set [0..<26]"
    then have "x \<le> 99" by simp
    then have "length (nat_str x) \<le> length (nat_str 99)" by (rule nat_str_length_mono)
    also have "\<dots> = 2" by code_simp
    finally show "length (nat_str x) \<le> 73" by simp
  qed
  then show ?thesis using np_array_str_line_width [of "[0..<26]"] s by simp
qed

text \<open>C33. numpy summarises an array of more than \<open>threshold\<close> = 1000 elements: the printed
  text holds its first three and last three elements around \<open>'...'\<close>, so the line no longer
  determines the array.\<close>

theorem np_array_str_summary:
  assumes "np_threshold < length xs"
  shows "tokens [] (butlast (tl (np_array_str xs))) =
           map nat_str (take np_edgeitems xs) @ [''...''] @ map nat_str (drop (length xs - np_edgeitems) xs)"
proof -
  have ne: "xs \<noteq> []" using assms by auto
  let ?f = "\<lambda>x. rjust (max_str_len (take np_edgeitems xs @ drop (length xs - np_edgeitems) xs)) (nat_str x)"
  let ?ws = "map ?f (take np_edgeitems xs) @ [''...''] @ map ?f (drop (length xs - np_edgeitems) xs)"
  have s: "np_array_str xs = format_array ?ws" using np_array_str_format [OF ne] assms by simp
  have v: "\<forall>w\<in>set ?ws. \<exists>c\<in>set w. \<not> py_isspace c" using rjust_visible ellipsis_word by auto
  show ?thesis using s format_array_tokens [OF v] by (simp add: tokens_rjust py_isspace_dot comp_def)
qed

theorem np_array_str_summary_witness:
  "tokens [] (butlast (tl (np_array_str [0..<1001]))) = [''0'', ''1'', ''2'', ''...'', ''998'', ''999'', ''1000'']"
proof -
  have "np_threshold < length [0..<1001]" by (simp add: np_threshold_def)
  from np_array_str_summary [OF this]
  have "tokens [] (butlast (tl (np_array_str [0..<1001]))) =
          map nat_str [0..<3] @ [''...''] @ map nat_str [998..<1001]"
    by (simp only: np_edgeitems_def take_upt drop_upt length_upt) simp
  also have "\<dots> = [''0'', ''1'', ''2'', ''...'', ''998'', ''999'', ''1000'']" by code_simp
  finally show ?thesis .
qed

lemma np_array_str_012: "np_array_str [0, 1, 2] = ''[0 1 2]''"
  by code_simp

lemma np_array_str_padded: "np_array_str [0, 10, 2] = ''[ 0 10  2]''"
  by code_simp

end
