(* ===== verification/Export.thy ===== *)
theory Export
  imports Classifier Report
begin

text \<open>
  Part 2 of the script (src/assets/code/decision_tree_example.py, lines 31-36):
  \<^verbatim>\<open>with open("iris_classifier.txt", "w") as f:
      f = tree.export_graphviz(clf, out_file=f, feature_names=..., class_names=...,
                               filled=True, rounded=True, special_characters=True)\<close>

  \<^bold>\<open>Files.\<close> The file system is a record: the contents of each path, whether
  \<open>open(path, "w")\<close> may open it, and the paths with an open handle.
  \<open>py_open_w\<close> creates or truncates the file and opens a handle, or raises
  \<open>OSError\<close> (no permission, no such directory) and changes nothing; \<open>py_write\<close>
  appends a chunk; \<open>py_close\<close> releases the handle. \<open>with_open_w p body\<close> is the
  \<open>with\<close> statement: open, run the body (the list of chunks it writes, and the
  exception it raises, if any), then close on every path and re-raise. Rebinding \<open>f\<close>
  to the \<open>None\<close> that \<open>export_graphviz\<close> returns does not matter: the \<open>with\<close>
  statement closes the object it opened. Buffered data is flushed at close; a failure
  of that flush (a full disk) is not modelled.

  \<^bold>\<open>The DOT text.\<close> \<open>export_graphviz\<close> writes, chunk by chunk, the header
  (\<open>dot_head\<close>), then each node in pre-order (the node ids of a depth-first built
  tree): its declaration \<open>id [label=<...>, fillcolor="#rrggbb"] ;\<close> and, below the
  root, the edge from its parent, the root's two edges labelled True and False; then
  \<open>}\<close>. The label (\<open>node_label\<close>, special characters on) holds the split test
  \<open>feature &le; threshold\<close> for an inner node, the node statistics, and
  \<open>class = name\<close> for every node, leaf or not, where \<open>name\<close> is
  \<open>class_names[argmax(value)]\<close>. Out-of-range feature or class names raise
  \<open>IndexError\<close> in the middle of the export, after earlier chunks were written.
  Three formatting functions are parameters (\<open>dot_style\<close>): the printed threshold
  (\<open>round(t, 3)\<close> as a float string), the statistics lines (gini, samples and value,
  functions of the node's value vector) and the fill colour's RGB components (its
  blending arithmetic); the colour is rendered as \<open>"#%2x%2x%2x"\<close>.
\<close>

record fs =
  files :: "string \<Rightarrow> string option"
  writable :: "string \<Rightarrow> bool"
  open_handles :: "string list"

definition py_open_w :: "string \<Rightarrow> fs \<Rightarrow> fs result" where
  "py_open_w p s =
     (if writable s p
      then Inr (s\<lparr>files := (files s)(p \<mapsto> []), open_handles := p # open_handles s\<rparr>)
      else Inl OSError)"

definition py_write :: "string \<Rightarrow> string \<Rightarrow> fs \<Rightarrow> fs" where
  "py_write p chunk s =
     s\<lparr>files := (files s)(p \<mapsto> (case files s p of None \<Rightarrow> [] | Some c \<Rightarrow> c) @ chunk)\<rparr>"

definition py_close :: "string \<Rightarrow> fs \<Rightarrow> fs" where
  "py_close p s = s\<lparr>open_handles := remove1 p (open_handles s)\<rparr>"

definition write_all :: "string \<Rightarrow> string list \<Rightarrow> fs \<Rightarrow> fs" where
  "write_all p cs s = fold (py_write p) cs s"

definition with_open_w :: "string \<Rightarrow> string list \<times> py_error option \<Rightarrow> fs \<Rightarrow> py_error option \<times> fs" where
  "with_open_w p body s =
     (case py_open_w p s of
        Inl e \<Rightarrow> (Some e, s)
      | Inr s1 \<Rightarrow> (snd body, py_close p (write_all p (fst body) s1)))"

record dot_style =
  fmt_threshold :: "real \<Rightarrow> string"
  node_stats :: "nat list \<Rightarrow> string"
  fill_rgb :: "nat list \<Rightarrow> nat \<times> nat \<times> nat"

definition nl :: string where
  "nl = [CHR 0x0A]"

fun hex_str :: "nat \<Rightarrow> string" where
  "hex_str n =
     (if n < 16 then [if n < 10 then digit_char n else char_of (87 + n)]
      else hex_str (n div 16) @ hex_str (n mod 16))"

declare hex_str.simps [simp del]

definition fill_color :: "dot_style \<Rightarrow> nat list \<Rightarrow> string" where
  "fill_color st v =
     (case fill_rgb st v of (r, g, b) \<Rightarrow>
        ''#'' @ rjust 2 (hex_str r) @ rjust 2 (hex_str g) @ rjust 2 (hex_str b))"

definition dot_head :: "string list" where
  "dot_head =
     [''digraph Tree {'' @ nl, ''node [shape=box'', '', style=\"filled, rounded\", color=\"black\"'',
      '', fontname=\"helvetica\"'', ''] ;'' @ nl, ''edge [fontname=\"helvetica\"] ;'' @ nl]"

fun node_value :: "dtree \<Rightarrow> nat list" where
  "node_value (Leaf v) = v"
| "node_value (Split f t v l r) = v"

definition class_name :: "string list \<Rightarrow> nat list \<Rightarrow> string result" where
  "class_name cn v =
     res_bind (np_argmax v) (\<lambda>k. if k < length cn then Inr (cn ! k) else Inl IndexError)"

fun node_label :: "dot_style \<Rightarrow> string list \<Rightarrow> string list \<Rightarrow> dtree \<Rightarrow> string result" where
  "node_label st fn cn (Leaf v) =
     res_bind (class_name cn v)
       (\<lambda>c. Inr (''<'' @ node_stats st v @ ''class = '' @ c @ ''>''))"
| "node_label st fn cn (Split f t v l r) =
     (if length fn \<le> f then Inl IndexError
      else res_bind (class_name cn v)
        (\<lambda>c. Inr (''<'' @ fn ! f @ '' &le; '' @ fmt_threshold st t @ ''<br/>'' @
                   node_stats st v @ ''class = '' @ c @ ''>'')))"

definition node_chunks :: "dot_style \<Rightarrow> nat \<Rightarrow> string \<Rightarrow> nat list \<Rightarrow> string list" where
  "node_chunks st n lab v =
     [nat_str n @ '' [label='' @ lab, '', fillcolor=\"'' @ fill_color st v @ ''\"'', ''] ;'' @ nl]"

definition edge_label_root :: string where
  "edge_label_root = '' [labeldistance=2.5, labelangle=''"

definition head_true :: string where
  "head_true = ''45, headlabel=\"True\"]''"

definition head_false :: string where
  "head_false = ''-45, headlabel=\"False\"]''"

definition stmt_end :: string where
  "stmt_end = '' ;'' @ nl"

definition edge_arrow :: "nat \<Rightarrow> nat \<Rightarrow> string" where
  "edge_arrow p n = nat_str p @ '' -> '' @ nat_str n"

definition edge_chunks :: "nat option \<Rightarrow> nat \<Rightarrow> string list" where
  "edge_chunks par n =
     (case par of
        None \<Rightarrow> []
      | Some p \<Rightarrow>
          [edge_arrow p n] @
          (if p = 0 then [edge_label_root, if n = 1 then head_true else head_false] else []) @
          [stmt_end])"

fun dot_recurse ::
  "dot_style \<Rightarrow> string list \<Rightarrow> string list \<Rightarrow> nat option \<Rightarrow> nat \<Rightarrow> dtree \<Rightarrow>
   string list \<times> py_error option \<times> nat" where
  "dot_recurse st fn cn par n (Leaf v) =
     (case node_label st fn cn (Leaf v) of
        Inl e \<Rightarrow> ([], Some e, n)
      | Inr lab \<Rightarrow> (node_chunks st n lab v @ edge_chunks par n, None, Suc n))"
| "dot_recurse st fn cn par n (Split f t v l r) =
     (case node_label st fn cn (Split f t v l r) of
        Inl e \<Rightarrow> ([], Some e, n)
      | Inr lab \<Rightarrow>
          (let own = node_chunks st n lab v @ edge_chunks par n;
               (cl, el, m) = dot_recurse st fn cn (Some n) (Suc n) l
           in if el \<noteq> None then (own @ cl, el, m)
              else (let (cr, er, k) = dot_recurse st fn cn (Some n) m r in (own @ cl @ cr, er, k))))"

definition export_graphviz ::
  "dot_style \<Rightarrow> string list \<Rightarrow> string list \<Rightarrow> tree_clf \<Rightarrow> string list \<times> py_error option" where
  "export_graphviz st fn cn c =
     (case dot_recurse st fn cn None 0 (root c) of
        (cs, None, _) \<Rightarrow> (dot_head @ cs @ [''}''], None)
      | (cs, Some e, _) \<Rightarrow> (dot_head @ cs, Some e))"

fun labels_ok :: "nat \<Rightarrow> nat \<Rightarrow> dtree \<Rightarrow> bool" where
  "labels_ok nf nc (Leaf v) \<longleftrightarrow> v \<noteq> [] \<and> length v \<le> nc"
| "labels_ok nf nc (Split f t v l r) \<longleftrightarrow>
     f < nf \<and> v \<noteq> [] \<and> length v \<le> nc \<and> labels_ok nf nc l \<and> labels_ok nf nc r"

subsection \<open>The with block\<close>

lemma open_handles_write_all [simp]: "open_handles (write_all p cs s) = open_handles s"
proof -
  have "open_handles (fold (py_write p) cs s) = open_handles s" for s
    by (induction cs arbitrary: s) (simp_all add: py_write_def)
  then show ?thesis by (simp add: write_all_def)
qed

lemma writable_write_all [simp]: "writable (write_all p cs s) = writable s"
proof -
  have "writable (fold (py_write p) cs s) = writable s" for s
    by (induction cs arbitrary: s) (simp_all add: py_write_def)
  then show ?thesis by (simp add: write_all_def)
qed

lemma write_all_eq:
  "files s p = Some c \<Longrightarrow> write_all p cs s = s\<lparr>files := (files s)(p \<mapsto> c @ concat cs)\<rparr>"
proof (induction cs arbitrary: s c)
  case Nil
  then have "(files s)(p \<mapsto> c) = files s" by auto
  then show ?case by (simp add: write_all_def)
next
  case (Cons a cs)
  have "files (py_write p a s) p = Some (c @ a)" using Cons.prems by (simp add: py_write_def)
  then have "write_all p cs (py_write p a s) =
      (py_write p a s)\<lparr>files := (files (py_write p a s))(p \<mapsto> (c @ a) @ concat cs)\<rparr>"
    by (rule Cons.IH)
  then show ?case using Cons.prems by (simp add: write_all_def py_write_def) (simp add: fun_upd_def)
qed

lemma with_open_w_cases:
  "with_open_w p body s =
     (if writable s p
      then (snd body, s\<lparr>files := (files s)(p \<mapsto> concat (fst body))\<rparr>)
      else (Some OSError, s))"
proof (cases "writable s p")
  case True
  let ?s1 = "s\<lparr>files := (files s)(p \<mapsto> []), open_handles := p # open_handles s\<rparr>"
  have "py_close p (write_all p (fst body) ?s1) = s\<lparr>files := (files s)(p \<mapsto> concat (fst body))\<rparr>"
    by (simp add: write_all_eq py_close_def)
  then show ?thesis using True by (simp add: with_open_w_def py_open_w_def)
next
  case False
  then show ?thesis by (simp add: with_open_w_def py_open_w_def)
qed

subsection \<open>Which chunks carry a class line\<close>

abbreviation has_class_line :: "string \<Rightarrow> bool" where
  "has_class_line c \<equiv> sublist ''class = '' c"

lemma no_class_line: "CHR ''s'' \<notin> set c \<Longrightarrow> \<not> has_class_line c"
  using set_mono_sublist by fastforce

lemma s_not_digit_char: "d < 10 \<Longrightarrow> digit_char d \<noteq> CHR ''s''"
proof
  assume "d < 10" "digit_char d = CHR ''s''"
  then have "of_char (digit_char d) = (of_char (CHR ''s'') :: nat)" by simp
  with \<open>d < 10\<close> show False by (simp add: digit_char_def)
qed

lemma s_not_digit_char': "d < 10 \<Longrightarrow> CHR ''s'' \<noteq> digit_char d"
  using s_not_digit_char by metis

lemma s_notin_nat_str: "CHR ''s'' \<notin> set (nat_str n)"
  using nat_str_digits [of n] s_not_digit_char by fastforce

lemma s_notin_hex_str: "CHR ''s'' \<notin> set (hex_str n)"
proof (induction n rule: hex_str.induct)
  case (1 n)
  have "char_of (87 + n) \<noteq> CHR ''s''" if "n < 16"
  proof
    assume "char_of (87 + n) = CHR ''s''"
    then have "of_char (char_of (87 + n)) = (of_char (CHR ''s'') :: nat)" by simp
    with that show False by simp
  qed
  then show ?case using "1.IH" s_not_digit_char' by (subst hex_str.simps) auto
qed

lemma s_notin_fill_color: "CHR ''s'' \<notin> set (fill_color st v)"
  by (auto simp: fill_color_def rjust_def s_notin_hex_str split: prod.splits)

lemma edge_chunks_no_class: "length (filter has_class_line (edge_chunks par n)) = 0"
proof -
  have a: "\<not> has_class_line (edge_arrow p m)" for p m
    by (rule no_class_line) (simp add: edge_arrow_def s_notin_nat_str)
  have b: "\<not> has_class_line edge_label_root" by (simp add: edge_label_root_def) code_simp
  have c: "\<not> has_class_line head_true" by (simp add: head_true_def) code_simp
  have d: "\<not> has_class_line head_false" by (simp add: head_false_def) code_simp
  have e: "\<not> has_class_line stmt_end" by (simp add: stmt_end_def nl_def no_class_line)
  show ?thesis by (simp add: edge_chunks_def a b c d e split: option.splits)
qed

lemma node_chunks_one_class:
  "has_class_line lab \<Longrightarrow> length (filter has_class_line (node_chunks st n lab v)) = 1"
proof -
  assume "has_class_line lab"
  then obtain ps ss where "lab = ps @ ''class = '' @ ss" by (auto simp: sublist_def)
  then have "has_class_line (nat_str n @ '' [label='' @ lab)"
    using sublist_appendI [of "''class = ''" "nat_str n @ '' [label='' @ ps" ss] by simp
  moreover have "CHR ''s'' \<notin> set ('', fillcolor=\"'' @ fill_color st v @ ''\"'')"
    by (simp add: s_notin_fill_color)
  moreover have "CHR ''s'' \<notin> set (''] ;'' @ nl)" by (simp add: nl_def)
  ultimately show ?thesis by (simp add: node_chunks_def no_class_line)
qed

lemma class_name_ok:
  assumes "v \<noteq> []" and "length v \<le> length cn"
  shows "\<exists>c. class_name cn v = Inr c"
proof -
  obtain k where k: "np_argmax v = Inr k" using np_argmax_nonempty [OF assms(1)] by blast
  then have "k < length cn" using np_argmax_lt assms(2) by fastforce
  with k show ?thesis by (simp add: class_name_def)
qed

lemma node_label_ok:
  assumes "labels_ok (length fn) (length cn) t"
  shows "\<exists>lab. node_label st fn cn t = Inr lab \<and> has_class_line lab"
proof (cases t)
  case (Leaf v)
  with assms obtain c where "class_name cn v = Inr c" using class_name_ok by fastforce
  moreover have "has_class_line (''<'' @ node_stats st v @ ''class = '' @ c @ ''>'')"
    using sublist_appendI [of "''class = ''" "''<'' @ node_stats st v" "c @ ''>''"] by simp
  ultimately show ?thesis using Leaf by simp
next
  case (Split f th v l r)
  with assms obtain c where "class_name cn v = Inr c" using class_name_ok by fastforce
  moreover have "has_class_line (''<'' @ fn ! f @ '' &le; '' @ fmt_threshold st th @ ''<br/>'' @
                   node_stats st v @ ''class = '' @ c @ ''>'')"
    using sublist_appendI [of "''class = ''"
        "''<'' @ fn ! f @ '' &le; '' @ fmt_threshold st th @ ''<br/>'' @ node_stats st v" "c @ ''>''"]
    by simp
  ultimately show ?thesis using Split assms by simp
qed

lemma dot_recurse_ok:
  assumes "labels_ok (length fn) (length cn) t"
  shows "\<exists>cs. dot_recurse st fn cn par n t = (cs, None, n + tree_size t) \<and>
           length (filter has_class_line cs) = tree_size t"
  using assms
proof (induction t arbitrary: par n)
  case (Leaf v)
  then obtain lab where "node_label st fn cn (Leaf v) = Inr lab" "has_class_line lab"
    using node_label_ok by blast
  then show ?case by (simp add: node_chunks_one_class edge_chunks_no_class)
next
  case (Split f th v l r)
  obtain lab where lab: "node_label st fn cn (Split f th v l r) = Inr lab" "has_class_line lab"
    using node_label_ok [OF Split.prems] by blast
  obtain cl where cl: "dot_recurse st fn cn (Some n) (Suc n) l = (cl, None, Suc n + tree_size l)"
      "length (filter has_class_line cl) = tree_size l"
    using Split.IH(1) [of "Some n" "Suc n"] Split.prems by auto
  obtain cr where cr: "dot_recurse st fn cn (Some n) (Suc n + tree_size l) r =
        (cr, None, Suc n + tree_size l + tree_size r)"
      "length (filter has_class_line cr) = tree_size r"
    using Split.IH(2) [of "Some n" "Suc n + tree_size l"] Split.prems by auto
  show ?case
    using lab cl cr by (simp add: node_chunks_one_class edge_chunks_no_class)
qed

lemma dot_head_no_class: "filter has_class_line dot_head = []"
  by code_simp

lemma tree_leaves_lt_size: "tree_leaves t \<le> tree_size t"
  by (induction t) auto

subsection \<open>Properties of the export\<close>

lemma tree_leaves_lt_size_Split: "tree_leaves (Split f t v l r) < tree_size (Split f t v l r)"
  using tree_leaves_lt_size [of l] tree_leaves_lt_size [of r] by simp

lemma wf_tree_labels_ok:
  "wf_tree k nf t \<Longrightarrow> 0 < k \<Longrightarrow> nf \<le> a \<Longrightarrow> k \<le> b \<Longrightarrow> labels_ok a b t"
  by (induction t) auto

lemma export_graphviz_ok:
  assumes "labels_ok (length fn) (length cn) (root c)"
  shows "\<exists>cs. export_graphviz st fn cn c = (dot_head @ cs @ [''}''], None) \<and>
           length (filter has_class_line (dot_head @ cs @ [''}''])) = tree_size (root c)"
proof -
  obtain cs k where "dot_recurse st fn cn None 0 (root c) = (cs, None, k)"
    and "length (filter has_class_line cs) = tree_size (root c)"
    using dot_recurse_ok [OF assms] by blast
  moreover have "\<not> has_class_line ''}''" by code_simp
  ultimately show ?thesis by (simp add: export_graphviz_def dot_head_no_class)
qed







text \<open>C34. The \<open>with\<close> block releases the file handle on every path: after it, the
  open handles are those before it, whether \<open>open\<close> failed, the body raised or the
  body completed.\<close>

theorem with_open_w_closes: "open_handles (snd (with_open_w p body s)) = open_handles s"
  by (simp add: with_open_w_cases)

end
