(* ===== verification/Script.thy ===== *)
theory Script
  imports Export
begin

text \<open>
  The script itself (src/assets/code/decision_tree_example.py, lines 8-36) as a list of
  statements executed in order over a record of its variables, its standard output and
  the file system. \<open>exec_stmt\<close> runs one statement: an exception is \<open>Raise e v\<close>,
  which keeps the effects already performed (printed lines, a written file), as a Python
  exception does. \<open>run\<close> stops at the first exception (an uncaught exception ends the
  process with exit status 1, \<open>exit_code\<close>). The library the script calls is a
  parameter (\<open>'m env\<close>): the data source of \<open>load_iris\<close>, the fit/predict interface
  of \<open>Classifier\<close>, and \<open>export_graphviz\<close>, which returns the chunks it wrote to
  \<open>out_file\<close> and the exception it raised, if any. The hold-out positions are a
  parameter of \<open>script_for\<close>; the script is \<open>script_for test_idx\<close>. A name not yet
  bound raises \<open>NameError\<close> (\<open>NoClf\<close>); an unfitted classifier raises scikit-learn's
  \<open>NotFittedError\<close>, a \<open>ValueError\<close>. Neither happens in the script's own order.

  The same execution is also a state machine: \<open>step\<close> relates configurations
  (\<open>Running\<close> with the statements left, \<open>Finished\<close>, \<open>Crashed\<close>); \<open>run\<close> is
  proved to compute exactly the configuration the machine reaches.
\<close>

datatype stmt =
  LoadIris
| SetTestIdx "int list"
| DeleteTarget
| DeleteData
| TakeTarget
| TakeData
| MakeClf
| FitClf
| PrintTarget
| PrintPrediction
| ExportTree

datatype 'm clf_state = NoClf | Unfitted | Fitted 'm

record 'm vars =
  iris :: dataset
  test_idx_v :: "int list"
  train_target_v :: "nat list"
  train_data_v :: "real list list"
  test_target_v :: "nat list"
  test_data_v :: "real list list"
  clf :: "'m clf_state"
  stdout :: "string list"
  fsys :: fs

record 'm env =
  load :: "dataset result"
  lib :: "'m ml_lib"
  export :: "'m \<Rightarrow> string list \<Rightarrow> string list \<Rightarrow> string list \<times> py_error option"

datatype 'm outcome = Ok "'m vars" | Raise py_error "'m vars"

definition out_path :: string where
  "out_path = ''iris_classifier.txt''"

definition script_for :: "int list \<Rightarrow> stmt list" where
  "script_for idx =
     [LoadIris, SetTestIdx idx, DeleteTarget, DeleteData, TakeTarget, TakeData,
      MakeClf, FitClf, PrintTarget, PrintPrediction, ExportTree]"

definition script :: "stmt list" where
  "script = script_for test_idx"

definition assign :: "'a result \<Rightarrow> ('a \<Rightarrow> 'm vars) \<Rightarrow> 'm vars \<Rightarrow> 'm outcome" where
  "assign r upd v = (case r of Inl e \<Rightarrow> Raise e v | Inr x \<Rightarrow> Ok (upd x))"

definition py_print :: "string \<Rightarrow> 'm vars \<Rightarrow> 'm vars" where
  "py_print line v = v\<lparr>stdout := stdout v @ [line]\<rparr>"

fun exec_stmt :: "'m env \<Rightarrow> stmt \<Rightarrow> 'm vars \<Rightarrow> 'm outcome" where
  "exec_stmt env LoadIris v = assign (load env) (\<lambda>d. v\<lparr>iris := d\<rparr>) v"
| "exec_stmt env (SetTestIdx idx) v = Ok (v\<lparr>test_idx_v := idx\<rparr>)"
| "exec_stmt env DeleteTarget v =
     assign (np_delete (target (iris v)) (test_idx_v v)) (\<lambda>x. v\<lparr>train_target_v := x\<rparr>) v"
| "exec_stmt env DeleteData v =
     assign (np_delete (data (iris v)) (test_idx_v v)) (\<lambda>x. v\<lparr>train_data_v := x\<rparr>) v"
| "exec_stmt env TakeTarget v =
     assign (np_take (target (iris v)) (test_idx_v v)) (\<lambda>x. v\<lparr>test_target_v := x\<rparr>) v"
| "exec_stmt env TakeData v =
     assign (np_take (data (iris v)) (test_idx_v v)) (\<lambda>x. v\<lparr>test_data_v := x\<rparr>) v"
| "exec_stmt env MakeClf v = Ok (v\<lparr>clf := Unfitted\<rparr>)"
| "exec_stmt env FitClf v =
     (case clf v of
        NoClf \<Rightarrow> Raise NameError v
      | _ \<Rightarrow> assign (lib_fit (lib env) (train_data_v v) (train_target_v v))
               (\<lambda>m. v\<lparr>clf := Fitted m\<rparr>) v)"
| "exec_stmt env PrintTarget v = Ok (py_print (np_array_str (test_target_v v)) v)"
| "exec_stmt env PrintPrediction v =
     (case clf v of
        Fitted m \<Rightarrow> assign (lib_predict (lib env) m (test_data_v v))
                     (\<lambda>ys. py_print (np_array_str ys) v) v
      | Unfitted \<Rightarrow> Raise ValueError v
      | NoClf \<Rightarrow> Raise NameError v)"
| "exec_stmt env ExportTree v =
     (let body = (case clf v of
                    Fitted m \<Rightarrow> export env m (feature_names (iris v)) (target_names (iris v))
                  | Unfitted \<Rightarrow> ([], Some ValueError)
                  | NoClf \<Rightarrow> ([], Some NameError))
      in case with_open_w out_path body (fsys v) of
           (None, s') \<Rightarrow> Ok (v\<lparr>fsys := s'\<rparr>)
         | (Some e, s') \<Rightarrow> Raise e (v\<lparr>fsys := s'\<rparr>))"

fun run :: "'m env \<Rightarrow> stmt list \<Rightarrow> 'm vars \<Rightarrow> 'm outcome" where
  "run env [] v = Ok v"
| "run env (s # ss) v =
     (case exec_stmt env s v of Ok v' \<Rightarrow> run env ss v' | Raise e v' \<Rightarrow> Raise e v')"

fun exit_code :: "'m outcome \<Rightarrow> nat" where
  "exit_code (Ok v) = 0"
| "exit_code (Raise e v) = 1"

fun final_vars :: "'m outcome \<Rightarrow> 'm vars" where
  "final_vars (Ok v) = v"
| "final_vars (Raise e v) = v"

datatype 'm cfg = Running "stmt list" "'m vars" | Finished "'m vars" | Crashed py_error "'m vars"

inductive step :: "'m env \<Rightarrow> 'm cfg \<Rightarrow> 'm cfg \<Rightarrow> bool" where
  step_ok: "exec_stmt env s v = Ok v' \<Longrightarrow> step env (Running (s # ss) v) (Running ss v')"
| step_raise: "exec_stmt env s v = Raise e v' \<Longrightarrow> step env (Running (s # ss) v) (Crashed e v')"
| step_finish: "step env (Running [] v) (Finished v)"

fun terminal :: "'m cfg \<Rightarrow> bool" where
  "terminal (Running ss v) = False"
| "terminal (Finished v) = True"
| "terminal (Crashed e v) = True"

fun cfg_of :: "'m outcome \<Rightarrow> 'm cfg" where
  "cfg_of (Ok v) = Finished v"
| "cfg_of (Raise e v) = Crashed e v"

definition init_vars :: "fs \<Rightarrow> 'm vars" where
  "init_vars s =
     \<lparr>iris = \<lparr>data = [], target = [], feature_names = [], target_names = []\<rparr>, test_idx_v = [],
      train_target_v = [], train_data_v = [], test_target_v = [], test_data_v = [],
      clf = NoClf, stdout = [], fsys = s\<rparr>"

fun vars_of :: "'m cfg \<Rightarrow> 'm vars" where
  "vars_of (Running ss v) = v"
| "vars_of (Finished v) = v"
| "vars_of (Crashed e v) = v"

definition export_contract ::
  "'m ml_lib \<Rightarrow> ('m \<Rightarrow> string list \<Rightarrow> string list \<Rightarrow> string list \<times> py_error option) \<Rightarrow> bool" where
  "export_contract l ex \<longleftrightarrow>
     (\<forall>X y m fn cn. fit_input_ok X y \<longrightarrow> lib_fit l X y = Inr m \<longrightarrow>
        length (hd X) \<le> length fn \<longrightarrow> card (set y) \<le> length cn \<longrightarrow> snd (ex m fn cn) = None)"

text \<open>An environment for the witnesses in which the data source is unavailable and
  the library raises on every call.\<close>

definition offline_env :: "unit env" where
  "offline_env = \<lparr>load = Inl OSError,
                  lib = \<lparr>lib_fit = (\<lambda>X y. Inl ValueError), lib_predict = (\<lambda>m Z. Inl ValueError)\<rparr>,
                  export = (\<lambda>m fn cn. ([], None))\<rparr>"

definition notes_fs :: fs where
  "notes_fs = \<lparr>files = [''notes.txt'' \<mapsto> ''x''], writable = (\<lambda>p. True), open_handles = []\<rparr>"

inductive_cases step_RunningE: "step env (Running ss v) c"
inductive_cases step_FinishedE: "step env (Finished v) c"
inductive_cases step_CrashedE: "step env (Crashed e v) c"

subsection \<open>The machine and the interpreter agree\<close>

lemma export_contractD:
  assumes "export_contract l ex" and "fit_input_ok X y" and "lib_fit l X y = Inr m"
    and "length (hd X) \<le> length fn" and "card (set y) \<le> length cn"
  shows "snd (ex m fn cn) = None"
  using assms unfolding export_contract_def by blast

lemma step_deterministic: "step env c c1 \<Longrightarrow> step env c c2 \<Longrightarrow> c1 = c2"
  by (auto elim!: step.cases)

lemma terminal_no_step: "terminal c \<Longrightarrow> \<not> step env c c'"
  by (cases c) (auto elim: step.cases)

lemma terminal_cfg_of [simp]: "terminal (cfg_of r)"
  by (cases r) auto

lemma run_Cons_Ok: "exec_stmt env s v = Ok v' \<Longrightarrow> run env (s # ss) v = run env ss v'"
  by simp

lemma run_Cons_Raise: "exec_stmt env s v = Raise e v' \<Longrightarrow> run env (s # ss) v = Raise e v'"
  by simp

lemma run_steps: "(step env)\<^sup>*\<^sup>* (Running ss v) (cfg_of (run env ss v))"
proof (induction ss arbitrary: v)
  case Nil
  then show ?case by (auto intro: step_finish)
next
  case (Cons s ss)
  show ?case
  proof (cases "exec_stmt env s v")
    case (Ok v')
    then have "step env (Running (s # ss) v) (Running ss v')" by (rule step_ok)
    with Cons.IH [of v'] Ok show ?thesis by (simp add: converse_rtranclp_into_rtranclp)
  next
    case (Raise e v')
    then show ?thesis by (auto intro: step_raise)
  qed
qed

lemma run_steps_bounded:
  "\<exists>n \<le> Suc (length ss). (step env ^^ n) (Running ss v) (cfg_of (run env ss v))"
proof (induction ss arbitrary: v)
  case Nil
  have "step env (Running [] v) (Finished v)" by (rule step_finish)
  then have "(step env ^^ Suc 0) (Running [] v) (Finished v)"
    by (rule relpowp_Suc_I2) simp
  then show ?case by (intro exI [of _ "Suc 0"]) simp
next
  case (Cons s ss)
  show ?case
  proof (cases "exec_stmt env s v")
    case (Ok v')
    obtain n where n: "n \<le> Suc (length ss)" "(step env ^^ n) (Running ss v') (cfg_of (run env ss v'))"
      using Cons.IH by blast
    have "step env (Running (s # ss) v) (Running ss v')" using Ok by (rule step_ok)
    from this n(2) have "(step env ^^ Suc n) (Running (s # ss) v) (cfg_of (run env ss v'))"
      by (rule relpowp_Suc_I2)
    with n(1) Ok show ?thesis by (intro exI [of _ "Suc n"]) simp
  next
    case (Raise e v')
    then have "(step env ^^ 1) (Running (s # ss) v) (Crashed e v')" by (auto intro: step_raise)
    with Raise show ?thesis by (intro exI [of _ 1]) simp
  qed
qed

lemma steps_to_terminal_unique:
  assumes "(step env)\<^sup>*\<^sup>* c c1" and "terminal c1" and "(step env)\<^sup>*\<^sup>* c c2" and "terminal c2"
  shows "c1 = c2"
  using assms
proof (induction arbitrary: c2 rule: converse_rtranclp_induct)
  case base
  then show ?case by (auto elim: converse_rtranclpE dest: terminal_no_step)
next
  case (step c c')
  note hyp = step.hyps(1) and IH = step.IH and prems = step.prems
  from prems(2) show ?case
  proof (cases rule: converse_rtranclpE)
    case base
    with hyp prems(3) show ?thesis by (auto dest: terminal_no_step)
  next
    case (step c'')
    with hyp have "c'' = c'" using step_deterministic by blast
    with step have "(step env)\<^sup>*\<^sup>* c' c2" by simp
    from IH [OF prems(1) this prems(3)] show ?thesis .
  qed
qed

lemma assign_vars:
  "assign r upd v = Ok v' \<Longrightarrow> \<exists>x. v' = upd x"
  "assign r upd v = Raise e v' \<Longrightarrow> v' = v"
  by (auto simp: assign_def split: sum.splits)

lemma exec_stmt_frame:
  "prefix (stdout v) (stdout (final_vars (exec_stmt env s v))) \<and>
   open_handles (fsys (final_vars (exec_stmt env s v))) = open_handles (fsys v) \<and>
   (\<forall>p. p \<noteq> out_path \<longrightarrow> files (fsys (final_vars (exec_stmt env s v))) p = files (fsys v) p)"
  by (cases s)
     (auto simp: assign_def py_print_def with_open_w_cases Let_def
           split: sum.splits clf_state.splits if_splits option.splits)

lemma step_frame:
  assumes "step env c c'"
  shows "prefix (stdout (vars_of c)) (stdout (vars_of c')) \<and>
         open_handles (fsys (vars_of c')) = open_handles (fsys (vars_of c)) \<and>
         (\<forall>p. p \<noteq> out_path \<longrightarrow> files (fsys (vars_of c')) p = files (fsys (vars_of c)) p)"
  using assms
proof (cases rule: step.cases)
  case (step_ok s v v' ss)
  then show ?thesis using exec_stmt_frame [of v env s] by simp
next
  case (step_raise s v e v' ss)
  then show ?thesis using exec_stmt_frame [of v env s] by simp
next
  case (step_finish v)
  then show ?thesis by simp
qed

lemma run_script_for_split:
  assumes "load env = Inr d" and "split_data d idx = Inr sp"
  shows "run env (script_for idx) v =
           run env [FitClf, PrintTarget, PrintPrediction, ExportTree]
             (v\<lparr>iris := d, test_idx_v := idx, train_target_v := train_target sp,
                 train_data_v := train_data sp, test_target_v := test_target sp,
                 test_data_v := test_data sp, clf := Unfitted\<rparr>)"
  using assms split_data_parts [OF assms(2)] by (simp add: script_for_def assign_def)

lemma run_ExportTree_fitted:
  assumes "clf v = Fitted m"
    and "export env m (feature_names (iris v)) (target_names (iris v)) = (cs, r)"
  shows "run env [ExportTree] v =
           (if writable (fsys v) out_path
            then (let v' = v\<lparr>fsys := (fsys v)\<lparr>files := (files (fsys v))(out_path \<mapsto> concat cs)\<rparr>\<rparr>
                  in case r of None \<Rightarrow> Ok v' | Some e \<Rightarrow> Raise e v')
            else Raise OSError v)"
  using assms by (simp add: with_open_w_cases Let_def split: option.splits)

subsection \<open>Properties of the machine\<close>



text \<open>C13. An invariant of every reachable configuration, by rule induction over the
  steps: standard output only grows, every file handle the script opens is closed again,
  and no file other than \<open>iris_classifier.txt\<close> is changed.\<close>

theorem reachable_frame:
  assumes "(step env)\<^sup>*\<^sup>* (Running ss v0) c"
  shows "prefix (stdout v0) (stdout (vars_of c)) \<and>
         open_handles (fsys (vars_of c)) = open_handles (fsys v0) \<and>
         (\<forall>p. p \<noteq> out_path \<longrightarrow> files (fsys (vars_of c)) p = files (fsys v0) p)"
  using assms
proof (induction rule: rtranclp_induct)
  case base
  then show ?case by simp
next
  case (step c c')
  then show ?case using step_frame [OF step.hyps(2)] prefix_order.trans by fastforce
qed

theorem reachable_frame_witness:
  "open_handles (fsys (vars_of (Crashed OSError (init_vars notes_fs :: unit vars)))) = [] \<and>
   files (fsys (vars_of (Crashed OSError (init_vars notes_fs :: unit vars)))) ''notes.txt'' = Some ''x''"
proof -
  have "step offline_env (Running script (init_vars notes_fs)) (Crashed OSError (init_vars notes_fs))"
    unfolding script_def script_for_def by (rule step_raise) (simp add: offline_env_def assign_def)
  then have r: "(step offline_env)\<^sup>*\<^sup>* (Running script (init_vars notes_fs)) (Crashed OSError (init_vars notes_fs))"
    by (rule r_into_rtranclp)
  have "''notes.txt'' \<noteq> out_path" by (simp add: out_path_def)
  then show ?thesis using reachable_frame [OF r] by (simp add: init_vars_def notes_fs_def)
qed



text \<open>C5. When the data source is unavailable, \<open>load_iris()\<close> raises and the script
  ends at once with that exception: nothing is printed and no file is touched.\<close>

theorem script_load_failure:
  assumes "load env = Inl e"
  shows "run env script v0 = Raise e v0 \<and> exit_code (run env script v0) = 1"
  using assms by (simp add: script_def script_for_def assign_def)

theorem script_load_failure_witness:
  "run offline_env script (init_vars notes_fs) = Raise OSError (init_vars notes_fs)"
proof -
  have "load offline_env = Inl OSError" by (simp add: offline_env_def)
  from script_load_failure [OF this] show ?thesis by simp
qed

end
