(* ===== verification/Splitter.thy ===== *)
theory Splitter
  imports Classifier
begin

text \<open>
  scikit-learn's \<open>BestSplitter\<close> with the Gini criterion, as used by
  \<open>clf.fit\<close> (src/assets/code/decision_tree_example.py, line 23): for each feature in
  the order given, the node's values are sorted; every position \<open>p\<close> with
  \<open>Xf[p] > Xf[p-1] + FEATURE_THRESHOLD\<close> gives the threshold \<open>(Xf[p-1] + Xf[p]) / 2\<close>,
  rated by Gini's proxy improvement
  \<open>sum(left_counts^2)/n_left + sum(right_counts^2)/n_right\<close>; a candidate replaces the
  best so far only when strictly better (\<open>better\<close>, \<open>best_split\<close>). Samples with
  \<open>x[f] <= threshold\<close> go left (\<open>split_at\<close>). Arithmetic is exact (\<open>real\<close>).

  The lemmas: every candidate splits the node into two non-empty parts that partition it;
  the best split is one of the candidates, and there is none exactly when no feature has a
  gap wider than \<open>FEATURE_THRESHOLD\<close> between consecutive sorted values, in which case
  any two samples of the node are close in every feature considered.
\<close>

type_synonym sample = "real list \<times> nat"

definition feature_threshold :: real where
  "feature_threshold = 1 / 10000000"

definition node_counts :: "nat list \<Rightarrow> sample list \<Rightarrow> nat list" where
  "node_counts cs S = class_counts cs (map snd S)"

definition sq_sum :: "nat list \<Rightarrow> real" where
  "sq_sum v = sum_list (map (\<lambda>k. real k * real k) v)"

definition proxy_improvement :: "nat list \<Rightarrow> sample list \<Rightarrow> sample list \<Rightarrow> real" where
  "proxy_improvement cs L R =
     sq_sum (node_counts cs L) / real (length L) + sq_sum (node_counts cs R) / real (length R)"

record split_record =
  sr_feature :: nat
  sr_threshold :: real
  sr_left :: "sample list"
  sr_right :: "sample list"
  sr_proxy :: real

definition feature_values :: "nat \<Rightarrow> sample list \<Rightarrow> real list" where
  "feature_values f S = sort (map (\<lambda>s. fst s ! f) S)"

definition split_positions :: "real list \<Rightarrow> nat list" where
  "split_positions xs = filter (\<lambda>p. xs ! (p - 1) + feature_threshold < xs ! p) [1..<length xs]"

definition split_at :: "nat list \<Rightarrow> nat \<Rightarrow> sample list \<Rightarrow> real \<Rightarrow> split_record" where
  "split_at cs f S t =
     (let L = filter (\<lambda>s. fst s ! f \<le> t) S; R = filter (\<lambda>s. \<not> fst s ! f \<le> t) S
      in \<lparr>sr_feature = f, sr_threshold = t, sr_left = L, sr_right = R,
          sr_proxy = proxy_improvement cs L R\<rparr>)"

definition feature_splits :: "nat list \<Rightarrow> sample list \<Rightarrow> nat \<Rightarrow> split_record list" where
  "feature_splits cs S f =
     (let xs = feature_values f S
      in map (\<lambda>p. split_at cs f S ((xs ! (p - 1) + xs ! p) / 2)) (split_positions xs))"

definition better :: "split_record option \<Rightarrow> split_record \<Rightarrow> split_record option" where
  "better b c = (case b of None \<Rightarrow> Some c | Some b' \<Rightarrow> if sr_proxy b' < sr_proxy c then Some c else b)"

definition best_split :: "nat list \<Rightarrow> nat list \<Rightarrow> sample list \<Rightarrow> split_record option" where
  "best_split cs fs S = foldl better None (concat (map (feature_splits cs S) fs))"

definition is_pure :: "sample list \<Rightarrow> bool" where
  "is_pure S \<longleftrightarrow> list_all (\<lambda>s. snd s = snd (hd S)) S"

lemma foldl_better_mem:
  "foldl better b cs = Some c \<Longrightarrow> b = Some c \<or> c \<in> set cs"
  by (induction cs arbitrary: b) (fastforce simp: better_def split: option.splits if_splits)+

lemma feature_values_mem:
  assumes "p < length (feature_values f S)"
  shows "\<exists>s\<in>set S. fst s ! f = feature_values f S ! p"
proof -
  have "feature_values f S ! p \<in> set (map (\<lambda>s. fst s ! f) S)"
    using assms nth_mem [OF assms] by (simp add: feature_values_def)
  then show ?thesis by force
qed

lemma feature_splits_sides:
  assumes "b \<in> set (feature_splits cs S f)"
  shows "length (sr_left b) < length S \<and> length (sr_right b) < length S"
proof -
  let ?xs = "feature_values f S"
  obtain p where p: "p \<in> set (split_positions ?xs)"
    and b: "b = split_at cs f S ((?xs ! (p - 1) + ?xs ! p) / 2)"
    using assms by (auto simp: feature_splits_def Let_def)
  let ?t = "(?xs ! (p - 1) + ?xs ! p) / 2"
  have p1: "1 \<le> p" "p < length ?xs" and gap: "?xs ! (p - 1) + feature_threshold < ?xs ! p"
    using p by (auto simp: split_positions_def)
  have "sorted ?xs" by (simp add: feature_values_def)
  then have "?xs ! 0 \<le> ?xs ! (p - 1)" using p1 by (intro sorted_nth_mono) auto
  then have lo: "?xs ! 0 < ?t" using gap by (simp add: feature_threshold_def)
  have hi: "?t < ?xs ! p" using gap by (simp add: feature_threshold_def)
  have "0 < length ?xs" using p1(2) by linarith
  then obtain s0 where s0: "s0 \<in> set S" "fst s0 ! f = ?xs ! 0"
    using feature_values_mem [of 0 f S] by blast
  obtain s1 where s1: "s1 \<in> set S" "fst s1 ! f = ?xs ! p"
    using feature_values_mem [of p f S] p1(2) by blast
  have "length (filter (\<lambda>s. \<not> fst s ! f \<le> ?t) S) < length S"
    using s0 lo by (intro length_filter_less) auto
  moreover have "length (filter (\<lambda>s. fst s ! f \<le> ?t) S) < length S"
    using s1 hi by (intro length_filter_less) auto
  ultimately show ?thesis by (simp add: b split_at_def Let_def)
qed

lemma best_split_sides:
  assumes "best_split cs fs S = Some b"
  shows "length (sr_left b) < length S \<and> length (sr_right b) < length S"
proof -
  from assms have "b \<in> set (concat (map (feature_splits cs S) fs))"
    using foldl_better_mem unfolding best_split_def by fastforce
  then show ?thesis using feature_splits_sides by auto
qed

lemma foldl_better_None: "foldl better b cs = None \<longleftrightarrow> b = None \<and> cs = []"
  by (induction cs arbitrary: b) (auto simp: better_def split: option.splits)

lemma best_split_mem:
  assumes "best_split cs fs S = Some b"
  shows "\<exists>f\<in>set fs. b \<in> set (feature_splits cs S f)"
  using foldl_better_mem [of None _ b] assms unfolding best_split_def by fastforce

lemma feature_splits_parts:
  assumes "b \<in> set (feature_splits cs S f)"
  shows "sr_feature b = f \<and> sr_left b = filter (\<lambda>s. fst s ! f \<le> sr_threshold b) S \<and>
         sr_right b = filter (\<lambda>s. \<not> fst s ! f \<le> sr_threshold b) S"
  using assms by (auto simp: feature_splits_def split_at_def Let_def)

lemma best_split_None:
  "best_split cs fs S = None \<longleftrightarrow> (\<forall>f\<in>set fs. split_positions (feature_values f S) = [])"
  by (simp add: best_split_def foldl_better_None feature_splits_def Let_def)

text \<open>Without a gap wider than \<open>FEATURE_THRESHOLD\<close>, consecutive sorted values climb
  by at most that much per position.\<close>

lemma sorted_no_gap_spread:
  assumes "\<forall>p. 1 \<le> p \<and> p < length xs \<longrightarrow> xs ! p \<le> xs ! (p - 1) + d"
    and "i \<le> j" and "j < length xs"
  shows "xs ! j \<le> xs ! i + real (j - i) * d"
  using assms(2,3)
proof (induction j)
  case 0
  then show ?case by simp
next
  case (Suc j)
  show ?case
  proof (cases "i = Suc j")
    case True
    then show ?thesis by simp
  next
    case False
    then have "i \<le> j" using Suc.prems by simp
    then have ih: "xs ! j \<le> xs ! i + real (j - i) * d" using Suc by simp
    have "xs ! Suc j \<le> xs ! j + d" using assms(1) Suc.prems(2) by fastforce
    moreover have "real (Suc j - i) = real (j - i) + 1" using \<open>i \<le> j\<close> by simp
    ultimately show ?thesis using ih by (simp add: algebra_simps)
  qed
qed

lemma no_split_close:
  assumes "split_positions (feature_values f S) = []" and "s \<in> set S" and "s' \<in> set S"
  shows "\<bar>fst s ! f - fst s' ! f\<bar> \<le> real (length S - 1) * feature_threshold"
proof -
  let ?xs = "feature_values f S"
  have gap: "\<forall>p. 1 \<le> p \<and> p < length ?xs \<longrightarrow> ?xs ! p \<le> ?xs ! (p - 1) + feature_threshold"
    using assms(1) by (force simp: split_positions_def filter_empty_conv not_less)
  have srt: "sorted ?xs" and len: "length ?xs = length S" by (simp_all add: feature_values_def)
  have "fst s ! f \<in> set ?xs" "fst s' ! f \<in> set ?xs"
    using assms(2,3) by (auto simp: feature_values_def)
  then obtain i j where ij: "i < length S" "?xs ! i = fst s ! f" "j < length S" "?xs ! j = fst s' ! f"
    by (metis in_set_conv_nth len)
  have thr: "0 \<le> feature_threshold" by (simp add: feature_threshold_def)
  have bound: "?xs ! b - ?xs ! a \<le> real (length S - 1) * feature_threshold"
    if "a < length S" "b < length S" for a b
  proof (cases "a \<le> b")
    case True
    have "?xs ! b \<le> ?xs ! a + real (b - a) * feature_threshold"
      using sorted_no_gap_spread [OF gap True] that len by simp
    moreover have "real (b - a) * feature_threshold \<le> real (length S - 1) * feature_threshold"
      using that thr by (intro mult_right_mono) auto
    ultimately show ?thesis by simp
  next
    case False
    then have "?xs ! b \<le> ?xs ! a" using srt that len by (intro sorted_nth_mono) auto
    moreover have "0 \<le> real (length S - 1) * feature_threshold" using thr by simp
    ultimately show ?thesis by simp
  qed
  show ?thesis using bound [OF ij(1) ij(3)] bound [OF ij(3) ij(1)] ij by (simp add: abs_le_iff)
qed

end
