(* ===== verification/Cart.thy ===== *)
theory Cart
  imports Splitter
begin

text \<open>
  What \<open>clf.fit(train_data, train_target)\<close> (src/assets/code/decision_tree_example.py,
  line 23) runs: scikit-learn's depth-first tree builder with the defaults of
  \<open>DecisionTreeClassifier()\<close> (criterion \<open>"gini"\<close>, splitter \<open>"best"\<close>, no depth
  limit, \<open>min_samples_split = 2\<close>, \<open>min_samples_leaf = 1\<close>, all features considered).
  A node holding the samples \<open>S\<close> becomes a leaf when it has fewer than two samples, when
  it is pure, or when \<open>best_split\<close> finds no candidate; otherwise it is split and both
  parts are built recursively (left first). Every node stores its class counts
  (\<open>tree_.value\<close>).

  \<open>BestSplitter\<close> visits the features in an order drawn from the random state at each
  node (the script does not set \<open>random_state\<close>). This order is the parameter
  \<open>po nf path\<close>: the order used at the node reached by \<open>path\<close> (\<open>True\<close> = left)
  in a tree over \<open>nf\<close> features. The builder is deterministic given it, and the
  theorems hold for every order.
\<close>

function cart_build :: "nat list \<Rightarrow> (bool list \<Rightarrow> nat list) \<Rightarrow> bool list \<Rightarrow> sample list \<Rightarrow> dtree" where
  "cart_build cs po path S =
     (if length S < 2 \<or> is_pure S then Leaf (node_counts cs S)
      else case best_split cs (po path) S of
             None \<Rightarrow> Leaf (node_counts cs S)
           | Some b \<Rightarrow> Split (sr_feature b) (sr_threshold b) (node_counts cs S)
                         (cart_build cs po (path @ [True]) (sr_left b))
                         (cart_build cs po (path @ [False]) (sr_right b)))"
  by pat_completeness auto
termination
  by (relation "measure (\<lambda>(cs, po, path, S). length S)") (auto dest: best_split_sides)

declare cart_build.simps [simp del]

text \<open>\<open>fit\<close>: the input checks of \<open>check_X_y\<close> (at least one sample and one feature,
  as many labels as rows, rows of one width; else \<open>ValueError\<close>), \<open>classes_\<close> as the
  sorted distinct labels, \<open>n_features_in_\<close>, and the tree built from the rows paired
  with their labels.\<close>

definition fit_cart ::
  "(nat \<Rightarrow> bool list \<Rightarrow> nat list) \<Rightarrow> real list list \<Rightarrow> nat list \<Rightarrow> tree_clf result" where
  "fit_cart po X y =
     (if \<not> fit_input_ok X y then Inl ValueError
      else let cs = sorted_list_of_set (set y); nf = length (hd X)
           in Inr \<lparr>classes = cs, n_features_in = nf, root = cart_build cs (po nf) [] (zip X y)\<rparr>)"

definition tree_lib :: "(nat \<Rightarrow> bool list \<Rightarrow> nat list) \<Rightarrow> tree_clf ml_lib" where
  "tree_lib po = \<lparr>lib_fit = fit_cart po, lib_predict = tree_predict\<rparr>"

text \<open>A feature order is admissible when at every node it lists exactly the features
  (\<open>max_features = None\<close>: all of them are drawn); \<open>identity_order\<close> is the
  order of a draw that leaves the features in place.\<close>

definition feature_perm :: "(nat \<Rightarrow> bool list \<Rightarrow> nat list) \<Rightarrow> bool" where
  "feature_perm po \<longleftrightarrow> (\<forall>nf path. set (po nf path) = {..<nf})"

definition identity_order :: "nat \<Rightarrow> bool list \<Rightarrow> nat list" where
  "identity_order nf path = [0..<nf]"

text \<open>Training data the builder can separate: two samples with different labels differ
  in some feature by more than \<open>FEATURE_THRESHOLD\<close> times the number of samples.\<close>

definition separable :: "sample list \<Rightarrow> bool" where
  "separable S \<longleftrightarrow>
     list_all (\<lambda>s. list_all (\<lambda>s'. snd s = snd s' \<or>
        list_ex (\<lambda>f. real (length S) * feature_threshold < \<bar>fst s ! f - fst s' ! f\<bar>)
          [0..<length (fst s)]) S) S"

subsection \<open>Shape of the built tree\<close>

lemma feature_perm_identity_order: "feature_perm identity_order"
  by (simp add: feature_perm_def identity_order_def lessThan_atLeast0)

lemma length_node_counts [simp]: "length (node_counts cs S) = length cs"
  by (simp add: node_counts_def class_counts_def)

lemma best_split_feature:
  "best_split cs fs S = Some b \<Longrightarrow> sr_feature b \<in> set fs"
  using best_split_mem feature_splits_parts by fastforce

lemma best_split_partition:
  assumes "best_split cs fs S = Some b"
  shows "length (sr_left b) + length (sr_right b) = length S \<and> sr_left b \<noteq> [] \<and> sr_right b \<noteq> []"
proof -
  obtain f where "b \<in> set (feature_splits cs S f)" using best_split_mem [OF assms] by blast
  then have "length (sr_left b) + length (sr_right b) = length S"
    using feature_splits_parts by (simp add: sum_length_filter_compl)
  with best_split_sides [OF assms] show ?thesis by auto
qed

lemma cart_build_wf:
  assumes "\<forall>p. set (po p) \<subseteq> {..<nf}"
  shows "wf_tree (length cs) nf (cart_build cs po path S)"
  using assms
proof (induction cs po path S rule: cart_build.induct)
  case (1 cs po path S)
  show ?case
  proof (cases "length S < 2 \<or> is_pure S")
    case True
    then show ?thesis by (simp add: cart_build.simps [of cs po path S])
  next
    case False
    show ?thesis
    proof (cases "best_split cs (po path) S")
      case None
      with False show ?thesis by (simp add: cart_build.simps [of cs po path S])
    next
      case (Some b)
      have "sr_feature b < nf" using best_split_feature [OF Some] "1.prems" by (meson lessThan_iff subsetD)
      with False Some "1.IH" "1.prems" show ?thesis by (simp add: cart_build.simps [of cs po path S])
    qed
  qed
qed

lemma cart_build_leaf:
  "length S < 2 \<or> is_pure S \<or> best_split cs (po path) S = None \<Longrightarrow>
   cart_build cs po path S = Leaf (node_counts cs S)"
  by (cases "length S < 2 \<or> is_pure S")
     (simp_all only: cart_build.simps [of cs po path S] if_True if_False simp_thms option.case, simp)

lemma cart_build_split:
  "\<not> (length S < 2 \<or> is_pure S) \<Longrightarrow> best_split cs (po path) S = Some b \<Longrightarrow>
   cart_build cs po path S =
     Split (sr_feature b) (sr_threshold b) (node_counts cs S)
       (cart_build cs po (path @ [True]) (sr_left b)) (cart_build cs po (path @ [False]) (sr_right b))"
  by (simp only: cart_build.simps [of cs po path S] if_False option.case)

text \<open>Every training sample is routed by \<open>predict\<close> to the leaf built from a part of
  the samples that contains it, and that part was not split further.\<close>

lemma cart_build_route:
  assumes "s \<in> set S"
  shows "\<exists>S' p. set S' \<subseteq> set S \<and> length S' \<le> length S \<and> s \<in> set S' \<and>
           tree_leaf (cart_build cs po path S) (fst s) = node_counts cs S' \<and>
           (length S' < 2 \<or> is_pure S' \<or> best_split cs (po p) S' = None)"
  using assms
proof (induction cs po path S rule: cart_build.induct)
  case (1 cs po path S)
  show ?case
  proof (cases "length S < 2 \<or> is_pure S \<or> best_split cs (po path) S = None")
    case True
    then show ?thesis using "1.prems" cart_build_leaf [of S cs po path, OF True]
      by (intro exI [of _ S] exI [of _ path]) simp
  next
    case False
    then obtain b where np: "\<not> (length S < 2 \<or> is_pure S)" and b: "best_split cs (po path) S = Some b"
      by (cases "best_split cs (po path) S") simp_all
    note eq = cart_build_split [of S cs po path b, OF np b]
    obtain f where "b \<in> set (feature_splits cs S f)" using best_split_mem [OF b] by blast
    note parts = feature_splits_parts [OF this]
    show ?thesis
    proof (cases "fst s ! sr_feature b \<le> sr_threshold b")
      case True
      then have "s \<in> set (sr_left b)" using parts "1.prems" by auto
      from "1.IH"(1) [OF np b this] obtain S' p where
        "set S' \<subseteq> set (sr_left b)" "length S' \<le> length (sr_left b)" "s \<in> set S'"
        "tree_leaf (cart_build cs po (path @ [True]) (sr_left b)) (fst s) = node_counts cs S'"
        "length S' < 2 \<or> is_pure S' \<or> best_split cs (po p) S' = None" by blast
      moreover have "set (sr_left b) \<subseteq> set S" "length (sr_left b) \<le> length S" using parts by auto
      ultimately show ?thesis using eq True by (intro exI [of _ S'] exI [of _ p]) auto
    next
      case False
      then have "s \<in> set (sr_right b)" using parts "1.prems" by auto
      from "1.IH"(2) [OF np b this] obtain S' p where
        "set S' \<subseteq> set (sr_right b)" "length S' \<le> length (sr_right b)" "s \<in> set S'"
        "tree_leaf (cart_build cs po (path @ [False]) (sr_right b)) (fst s) = node_counts cs S'"
        "length S' < 2 \<or> is_pure S' \<or> best_split cs (po p) S' = None" by blast
      moreover have "set (sr_right b) \<subseteq> set S" "length (sr_right b) \<le> length S" using parts by auto
      ultimately show ?thesis using eq False by (intro exI [of _ S'] exI [of _ p]) auto
    qed
  qed
qed

text \<open>A leaf of a separable training set is pure: a node with two labels and no split
  would have all its samples close in every feature, which separability excludes.\<close>

lemma leaf_pure:
  assumes sep: "separable S" and perm: "feature_perm po"
    and w: "\<forall>s\<in>set S. length (fst s) = nf"
    and sub: "set S' \<subseteq> set S" and len: "length S' \<le> length S" and s: "s \<in> set S'"
    and leaf: "length S' < 2 \<or> is_pure S' \<or> best_split cs (po nf p) S' = None"
  shows "\<forall>s'\<in>set S'. snd s' = snd s"
proof (rule ccontr)
  assume "\<not> (\<forall>s'\<in>set S'. snd s' = snd s)"
  then obtain s' where s': "s' \<in> set S'" "snd s \<noteq> snd s'" by auto
  have "\<not> length S' < 2"
  proof
    assume "length S' < 2"
    then have "length S' \<le> 1" by simp
    with s s' have "s = s'" by (cases S') (auto simp: length_Suc_conv)
    with s' show False by simp
  qed
  moreover have "\<not> is_pure S'"
  proof
    assume "is_pure S'"
    then have "snd s = snd (hd S')" "snd s' = snd (hd S')"
      using s s'(1) by (auto simp: is_pure_def list_all_iff)
    with s'(2) show False by simp
  qed
  ultimately have none: "best_split cs (po nf p) S' = None" using leaf by blast
  have "\<forall>a\<in>set S. \<forall>b\<in>set S. snd a = snd b \<or>
          (\<exists>f\<in>set [0..<length (fst a)]. real (length S) * feature_threshold < \<bar>fst a ! f - fst b ! f\<bar>)"
    using sep by (simp only: separable_def list_all_iff list_ex_iff)
  moreover have "s \<in> set S" "s' \<in> set S" using s s'(1) sub by auto
  ultimately have "snd s = snd s' \<or>
      (\<exists>f\<in>set [0..<length (fst s)]. real (length S) * feature_threshold < \<bar>fst s ! f - fst s' ! f\<bar>)"
    by blast
  then obtain f where f: "f < length (fst s)"
    "real (length S) * feature_threshold < \<bar>fst s ! f - fst s' ! f\<bar>"
    using s'(2) by auto
  have "f \<in> set (po nf p)" using f(1) w s sub perm by (auto simp: feature_perm_def)
  then have "split_positions (feature_values f S') = []" using none by (simp add: best_split_None)
  then have "\<bar>fst s ! f - fst s' ! f\<bar> \<le> real (length S' - 1) * feature_threshold"
    using no_split_close s s' by blast
  moreover have "real (length S' - 1) * feature_threshold \<le> real (length S) * feature_threshold"
    using len by (intro mult_right_mono) (auto simp: feature_threshold_def)
  ultimately show False using f(2) by simp
qed

lemma pure_counts_argmax:
  assumes "distinct cs" and "l \<in> set cs" and "S' \<noteq> []" and "\<forall>s\<in>set S'. snd s = l"
  shows "\<exists>k. np_argmax (node_counts cs S') = Inr k \<and> k < length cs \<and> cs ! k = l"
proof -
  have y: "map snd S' = replicate (length S') l" using assms(4) by (intro replicate_eqI) auto
  let ?v = "node_counts cs S'"
  have v: "?v ! i = (if cs ! i = l then length S' else 0)" if "i < length cs" for i
    using that y by (simp add: node_counts_def class_counts_def count_list_replicate_eq)
  obtain j where j: "j < length cs" "cs ! j = l" using assms(2) unfolding in_set_conv_nth by blast
  have "?v \<noteq> []" using j by (auto simp: node_counts_def class_counts_def)
  then obtain k where k: "np_argmax ?v = Inr k" using np_argmax_nonempty by blast
  note am = np_argmax_first_max [OF k]
  have kl: "k < length cs" using am by simp
  have "?v ! j \<le> ?v ! k" using am j(1) by simp
  moreover have "?v ! j = length S'" using v [OF j(1)] j(2) by simp
  moreover have "0 < length S'" using assms(3) by simp
  ultimately have "0 < ?v ! k" by linarith
  then have "cs ! k = l" using v [OF kl] by (simp split: if_splits)
  with k kl show ?thesis by blast
qed

lemma tree_lib_meets_contract:
  assumes "feature_perm po"
  shows "lib_contract (tree_lib po)"
  unfolding lib_contract_def
proof (intro allI impI)
  fix X y
  assume ok: "fit_input_ok X y"
  let ?cs = "sorted_list_of_set (set y)"
  let ?c = "\<lparr>classes = ?cs, n_features_in = length (hd X),
             root = cart_build ?cs (po (length (hd X))) [] (zip X y)\<rparr>"
  have fit: "fit_cart po X y = Inr ?c" using ok by (simp add: fit_cart_def Let_def)
  have "y \<noteq> []" using ok by (auto simp: fit_input_ok_def)
  moreover have "\<forall>p. set (po (length (hd X)) p) \<subseteq> {..<length (hd X)}"
    using assms by (simp add: feature_perm_def)
  ultimately have "?cs \<noteq> []" and "wf_tree (length ?cs) (length (hd X)) (root ?c)"
    using cart_build_wf [of "po (length (hd X))" "length (hd X)" ?cs "[]" "zip X y"] by simp_all
  then have wf: "wf_clf ?c" by (simp only: wf_clf_def tree_clf.select_convs) simp
  have cls: "set (classes ?c) = set y" "n_features_in ?c = length (hd X)" by simp_all
  have "\<forall>Z. Z \<noteq> [] \<longrightarrow> rows_of_width (length (hd X)) Z \<longrightarrow>
          (\<exists>ys. tree_predict ?c Z = Inr ys \<and> length ys = length Z \<and> set ys \<subseteq> set y)"
    using tree_predict_ok [OF wf] unfolding cls by blast
  with fit show "\<exists>m. lib_fit (tree_lib po) X y = Inr m \<and>
           (\<forall>Z. Z \<noteq> [] \<longrightarrow> rows_of_width (length (hd X)) Z \<longrightarrow>
              (\<exists>ys. lib_predict (tree_lib po) m Z = Inr ys \<and> length ys = length Z \<and> set ys \<subseteq> set y))"
    by (simp add: tree_lib_def)
qed

subsection \<open>Properties of the fitted tree\<close>

lemma fit_cart_Inr:
  assumes "fit_input_ok X y" and "fit_cart po X y = Inr m"
  shows "m = \<lparr>classes = sorted_list_of_set (set y), n_features_in = length (hd X),
              root = cart_build (sorted_list_of_set (set y)) (po (length (hd X))) [] (zip X y)\<rparr>"
  using assms by (simp add: fit_cart_def Let_def)

text \<open>C9. With the default settings the fitted tree reproduces its training data:
  when no two samples with different labels are within \<open>FEATURE_THRESHOLD\<close> times the
  sample count of each other in every feature, \<open>predict\<close> on the training rows returns
  exactly the training labels, whatever feature order the random state draws.\<close>

theorem cart_fits_training_set:
  assumes perm: "feature_perm po" and ok: "fit_input_ok X y" and sep: "separable (zip X y)"
    and fit: "fit_cart po X y = Inr m"
  shows "tree_predict m X = Inr y"
proof -
  let ?cs = "sorted_list_of_set (set y)" and ?nf = "length (hd X)" and ?S = "zip X y"
  note m = fit_cart_Inr [OF ok fit]
  have len: "length X = length y" and ne: "X \<noteq> []" and rw: "rows_of_width ?nf X"
    using ok by (simp_all add: fit_input_ok_def)
  have w: "\<forall>s\<in>set ?S. length (fst s) = ?nf"
    using rw by (auto simp: rows_of_width_def list_all_iff dest: set_zip_leftD)
  have row: "predict_row m (X ! i) = Inr (y ! i)" if i: "i < length X" for i
  proof -
    have s: "(X ! i, y ! i) \<in> set ?S" using i len by (force simp: set_zip)
    obtain S' p where r: "set S' \<subseteq> set ?S" "length S' \<le> length ?S" "(X ! i, y ! i) \<in> set S'"
        "tree_leaf (cart_build ?cs (po ?nf) [] ?S) (X ! i) = node_counts ?cs S'"
        "length S' < 2 \<or> is_pure S' \<or> best_split ?cs (po ?nf p) S' = None"
      using cart_build_route [OF s, of ?cs "po ?nf" "[]"] unfolding fst_conv by blast
    have pure: "\<forall>s'\<in>set S'. snd s' = y ! i"
      using leaf_pure [OF sep perm w r(1) r(2) r(3) r(5)] by simp
    have "distinct ?cs" "y ! i \<in> set ?cs" "S' \<noteq> []" using i len r(3) by auto
    from pure_counts_argmax [OF this pure] obtain k where
      "np_argmax (node_counts ?cs S') = Inr k" "?cs ! k = y ! i" by blast
    then show ?thesis using r(4) by (simp add: predict_row_def m)
  qed
  have "res_map_list (predict_row m) X = Inr y"
    using row len by (simp add: res_map_list_Inr_iff list_all2_conv_all_nth)
  then show ?thesis using ne rw by (simp add: tree_predict_def m)
qed

theorem cart_fits_training_set_witness:
  "\<exists>m. fit_cart identity_order [[1, 5], [2, 4], [3, 3], [4, 3], [5, 1]] [0, 1, 1, 2, 2] = Inr m \<and>
       tree_predict m [[1, 5], [2, 4], [3, 3], [4, 3], [5, 1]] = Inr [0, 1, 1, 2, 2]"
proof -
  note perm = feature_perm_identity_order
  have ok: "fit_input_ok [[1, 5], [2, 4], [3, 3], [4, 3], [5, 1 :: real]] [0, 1, 1, 2, 2]"
    by (simp add: fit_input_ok_def rows_of_width_def)
  have sep: "separable (zip [[1, 5], [2, 4], [3, 3], [4, 3], [5, 1 :: real]] [0, 1, 1, 2, 2])"
    by code_simp
  obtain m where fit: "fit_cart identity_order [[1, 5], [2, 4], [3, 3], [4, 3], [5, 1]] [0, 1, 1, 2, 2] = Inr m"
    using ok by (simp add: fit_cart_def Let_def)
  show ?thesis using cart_fits_training_set [OF perm ok sep fit] fit by blast
qed

text \<open>C16. Bound on the fitted tree: it has at most one leaf per training sample (every
  leaf holds at least one sample and the two sides of a split partition the node).\<close>

theorem cart_leaves_bound:
  "S \<noteq> [] \<Longrightarrow> tree_leaves (cart_build cs po path S) \<le> length S"
proof (induction cs po path S rule: cart_build.induct)
  case (1 cs po path S)
  show ?case
  proof (cases "length S < 2 \<or> is_pure S \<or> best_split cs (po path) S = None")
    case True
    then show ?thesis using "1.prems" cart_build_leaf [of S cs po path, OF True] by (simp add: Suc_le_eq)
  next
    case False
    then obtain b where np: "\<not> (length S < 2 \<or> is_pure S)" and b: "best_split cs (po path) S = Some b"
      by (cases "best_split cs (po path) S") simp_all
    note part = best_split_partition [OF b]
    have "tree_leaves (cart_build cs po (path @ [True]) (sr_left b)) \<le> length (sr_left b)"
      using "1.IH"(1) [OF np b] part by blast
    moreover have "tree_leaves (cart_build cs po (path @ [False]) (sr_right b)) \<le> length (sr_right b)"
      using "1.IH"(2) [OF np b] part by blast
    ultimately show ?thesis using part by (simp add: cart_build_split [of S cs po path b, OF np b])
  qed
qed

theorem cart_leaves_bound_witness:
  "tree_leaves (cart_build [0, 1, 2] (\<lambda>p. [1, 0]) [] [([1, 5], 0), ([2, 4], 1), ([3, 3], 1), ([4, 3], 2), ([5, 1], 2)]) \<le> 5"
proof -
  have "[([1, 5], 0), ([2, 4], 1), ([3, 3], 1), ([4, 3], 2), ([5, 1 :: real], 2 :: nat)] \<noteq> []" by simp
  from cart_leaves_bound [OF this, of "[0, 1, 2]" "\<lambda>p. [1, 0]" "[]"] show ?thesis by simp
qed

text \<open>C11. The fitted classifier is well formed: \<open>classes_\<close> is the sorted list of the
  distinct training labels, \<open>n_features_in_\<close> the training width, and every node of the
  tree holds one count per class and tests a feature below \<open>n_features_in_\<close>.\<close>

theorem fit_cart_wf:
  assumes "feature_perm po" and ok: "fit_input_ok X y" and fit: "fit_cart po X y = Inr c"
  shows "wf_clf c \<and> sorted (classes c) \<and> distinct (classes c) \<and> set (classes c) = set y \<and>
         n_features_in c = length (hd X)"
proof -
  note m = fit_cart_Inr [OF ok fit]
  have "y \<noteq> []" using ok by (auto simp: fit_input_ok_def)
  moreover have "\<forall>p. set (po (length (hd X)) p) \<subseteq> {..<length (hd X)}"
    using assms(1) by (simp add: feature_perm_def)
  ultimately have "sorted_list_of_set (set y) \<noteq> []"
    and "wf_tree (length (sorted_list_of_set (set y))) (length (hd X))
           (cart_build (sorted_list_of_set (set y)) (po (length (hd X))) [] (zip X y))"
    using cart_build_wf [of "po (length (hd X))" "length (hd X)" "sorted_list_of_set (set y)" "[]" "zip X y"]
    by simp_all
  then show ?thesis by (simp add: m wf_clf_def)
qed

theorem fit_cart_wf_witness:
  "\<exists>c. fit_cart identity_order [[1, 5], [2, 4], [3, 3]] [2, 0, 2] = Inr c \<and> wf_clf c \<and>
       classes c = [0, 2]"
proof -
  note perm = feature_perm_identity_order
  have ok: "fit_input_ok [[1, 5], [2, 4], [3, 3 :: real]] [2, 0, 2]"
    by (simp add: fit_input_ok_def rows_of_width_def)
  obtain c where fit: "fit_cart identity_order [[1, 5], [2, 4], [3, 3]] [2, 0, 2] = Inr c"
    using ok by (simp add: fit_cart_def Let_def)
  have "wf_clf c \<and> sorted (classes c) \<and> distinct (classes c) \<and> set (classes c) = set [2, 0, 2]"
    using fit_cart_wf [OF perm ok fit] by blast
  then have "wf_clf c" and "classes c = [0, 2]"
    by (auto intro: sorted_distinct_set_unique [of _ "[0, 2]"])
  with fit show ?thesis by blast
qed


end
