(* ===== verification/Gini.thy ===== *)
theory Gini
  imports Splitter
begin

text \<open>
  The Gini criterion behind \<open>clf.fit\<close> (src/assets/code/decision_tree_example.py,
  line 23) and the choice \<open>BestSplitter\<close> makes with it. \<open>gini\<close> is
  \<open>Gini.node_impurity\<close>, \<open>1 - sum(count_k^2) / n^2\<close>; \<open>best_split_ref\<close> states
  what the splitter's scan computes: the first candidate, in visiting order, whose proxy
  improvement is maximal.

  The lemmas and theorems: the scan \<open>best_split\<close> equals this reference; the proxy
  improvement the splitter maximises is the node size minus the weighted impurity of the
  two children, so the chosen split is one of least weighted child impurity; a split never
  raises the weighted impurity; and the leaf test \<open>is_pure\<close> of the model is the
  source's test \<open>impurity <= EPSILON\<close> with exact arithmetic (impurity 0).
\<close>

definition gini :: "nat list \<Rightarrow> sample list \<Rightarrow> real" where
  "gini cs S = 1 - sq_sum (node_counts cs S) / (real (length S) * real (length S))"

definition split_candidates :: "nat list \<Rightarrow> nat list \<Rightarrow> sample list \<Rightarrow> split_record list" where
  "split_candidates cs fs S = concat (map (feature_splits cs S) fs)"

definition best_split_ref :: "nat list \<Rightarrow> nat list \<Rightarrow> sample list \<Rightarrow> split_record option" where
  "best_split_ref cs fs S =
     (let cands = split_candidates cs fs S
      in find (\<lambda>c. list_all (\<lambda>c'. sr_proxy c' \<le> sr_proxy c) cands) cands)"

subsection \<open>The scan keeps the first maximum\<close>

lemma find_cong_set:
  "(\<And>x. x \<in> set xs \<Longrightarrow> P x = Q x) \<Longrightarrow> find P xs = find Q xs"
  by (induction xs) auto

lemma find_Some_mem: "find P xs = Some x \<Longrightarrow> x \<in> set xs \<and> P x"
  by (induction xs) (auto split: if_splits)

lemma find_append_eq:
  "find P (xs @ ys) = (case find P xs of None \<Rightarrow> find P ys | Some x \<Rightarrow> Some x)"
  by (induction xs) auto

abbreviation first_max_of :: "split_record list \<Rightarrow> split_record \<Rightarrow> bool" where
  "first_max_of ys c \<equiv> \<forall>c'\<in>set ys. sr_proxy c' \<le> sr_proxy c"

lemma foldl_better_first_max:
  "foldl better None xs = find (first_max_of xs) xs"
proof (induction xs rule: rev_induct)
  case Nil
  then show ?case by simp
next
  case (snoc x xs)
  show ?case
  proof (cases "foldl better None xs")
    case None
    then have "xs = []" by (simp add: foldl_better_None)
    then show ?thesis by (simp add: better_def)
  next
    case (Some r)
    with snoc.IH have r: "find (first_max_of xs) xs = Some r" by simp
    note rr = find_Some_mem [OF r]
    have rin: "r \<in> set xs" using rr by (rule conjunct1)
    have rmax: "first_max_of xs r" using rr by (rule conjunct2)
    have step: "foldl better None (xs @ [x]) = better (Some r) x" using Some by simp
    show ?thesis
    proof (cases "sr_proxy r < sr_proxy x")
      case True
      have below: "sr_proxy c < sr_proxy x" if "c \<in> set xs" for c
        using rmax that True by (meson le_less_trans)
      then have "\<not> first_max_of (xs @ [x]) c" if "c \<in> set xs" for c
        using that by force
      then have n: "find (first_max_of (xs @ [x])) xs = None" by (simp add: find_None_iff)
      have "first_max_of (xs @ [x]) x" using below by (auto simp: less_imp_le)
      then have "find (first_max_of (xs @ [x])) (xs @ [x]) = Some x" using n by (simp add: find_append_eq)
      then show ?thesis using True by (simp only: step) (simp add: better_def)
    next
      case False
      have "first_max_of (xs @ [x]) c = first_max_of xs c" if "c \<in> set xs" "first_max_of xs c" for c
      proof -
        have "sr_proxy r \<le> sr_proxy c" using that(2) rin by blast
        then have "sr_proxy x \<le> sr_proxy c" using False by linarith
        then show ?thesis using that(2) by auto
      qed
      moreover have "\<not> first_max_of (xs @ [x]) c" if "c \<in> set xs" "\<not> first_max_of xs c" for c
        using that by auto
      ultimately have "first_max_of (xs @ [x]) c = first_max_of xs c" if "c \<in> set xs" for c
        using that by blast
      then have "find (first_max_of (xs @ [x])) xs = Some r"
        using find_cong_set [of xs "first_max_of (xs @ [x])" "first_max_of xs"] r by presburger
      then show ?thesis using False by (simp only: step) (simp add: better_def find_append_eq)
    qed
  qed
qed

subsection \<open>Counting the classes of a node\<close>

lemma count_list_distinct:
  "distinct cs \<Longrightarrow> count_list cs y = (if y \<in> set cs then 1 else 0)"
  by (induction cs) auto

lemma sum_list_indicator: "sum_list (map (\<lambda>c. if y = c then 1 else 0) cs) = count_list cs y"
  by (induction cs) auto

lemma sum_class_counts:
  assumes "distinct cs" and "set ys \<subseteq> set cs"
  shows "sum_list (map (count_list ys) cs) = length ys"
  using assms(2)
proof (induction ys)
  case Nil
  then show ?case by (induction cs) auto
next
  case (Cons y ys)
  have "sum_list (map (count_list (y # ys)) cs) =
        sum_list (map (count_list ys) cs) + sum_list (map (\<lambda>c. if y = c then 1 else 0) cs)"
    by (induction cs) auto
  also have "\<dots> = length ys + 1"
    using Cons assms(1) by (simp add: sum_list_indicator count_list_distinct)
  finally show ?case by (simp del: count_list.simps)
qed

lemma count_list_partition:
  "count_list (map snd S) c =
   count_list (map snd (filter P S)) c + count_list (map snd (filter (\<lambda>s. \<not> P s) S)) c"
  by (induction S) auto

lemma sq_sum_as_sum:
  "distinct cs \<Longrightarrow> sq_sum (node_counts cs S) = (\<Sum>c\<in>set cs. real (count_list (map snd S) c) ^ 2)"
  by (simp add: sq_sum_def node_counts_def class_counts_def sum_list_distinct_conv_sum_set
                power2_eq_square)

lemma size_as_sum:
  assumes "distinct cs" and "set (map snd S) \<subseteq> set cs"
  shows "real (length S) = (\<Sum>c\<in>set cs. real (count_list (map snd S) c))"
proof -
  have "length S = sum_list (map (count_list (map snd S)) cs)"
    using sum_class_counts [OF assms] by simp
  then show ?thesis using assms(1) by (simp add: sum_list_distinct_conv_sum_set flip: of_nat_sum)
qed

subsection \<open>Impurity of the two children\<close>

text \<open>Per class: splitting \<open>a + b\<close> samples of a class into parts of sizes \<open>x\<close> and
  \<open>y\<close> never lowers the sum of squared shares.\<close>

lemma split_square_mono:
  fixes a b x y :: real
  assumes "0 < x" and "0 < y"
  shows "(a + b) ^ 2 / (x + y) \<le> a ^ 2 / x + b ^ 2 / y"
proof -
  have "a ^ 2 / x + b ^ 2 / y - (a + b) ^ 2 / (x + y) = (a * y - b * x) ^ 2 / (x * y * (x + y))"
    using assms by (simp add: field_simps power2_eq_square)
  moreover have "0 \<le> (a * y - b * x) ^ 2 / (x * y * (x + y))" using assms by simp
  ultimately show ?thesis by linarith
qed

lemma weighted_gini:
  assumes "S \<noteq> []"
  shows "real (length S) * gini cs S = real (length S) - sq_sum (node_counts cs S) / real (length S)"
  using assms by (simp add: gini_def field_simps)

lemma count_list_le_length: "count_list xs x \<le> length xs"
  by (induction xs) auto

lemma count_list_less_length: "y \<in> set xs \<Longrightarrow> y \<noteq> x \<Longrightarrow> count_list xs x < length xs"
  by (induction xs) (auto simp: le_imp_less_Suc count_list_le_length)

lemma candidate_parts:
  assumes "c \<in> set (split_candidates cs fs S)"
  shows "sr_left c \<noteq> [] \<and> sr_right c \<noteq> [] \<and> length (sr_left c) + length (sr_right c) = length S \<and>
         (\<exists>P. sr_left c = filter P S \<and> sr_right c = filter (\<lambda>s. \<not> P s) S)"
proof -
  obtain f where f: "c \<in> set (feature_splits cs S f)"
    using assms by (auto simp: split_candidates_def)
  note parts = feature_splits_parts [OF f]
  have len: "length (sr_left c) + length (sr_right c) = length S"
    using parts by (simp add: sum_length_filter_compl)
  moreover have "length (sr_left c) < length S" "length (sr_right c) < length S"
    using feature_splits_sides [OF f] by simp_all
  ultimately show ?thesis using parts by fastforce
qed

lemma candidate_weighted:
  assumes "c \<in> set (split_candidates cs fs S)"
  shows "real (length (sr_left c)) * gini cs (sr_left c) + real (length (sr_right c)) * gini cs (sr_right c) =
         real (length S) - sr_proxy c"
proof -
  obtain f where f: "c \<in> set (feature_splits cs S f)"
    using assms by (auto simp: split_candidates_def)
  have proxy: "sr_proxy c = proxy_improvement cs (sr_left c) (sr_right c)"
    using f by (auto simp: feature_splits_def split_at_def Let_def)
  note cp = candidate_parts [OF assms]
  have "real (length (sr_left c) + length (sr_right c)) = real (length S)" using cp by presburger
  then show ?thesis using cp
    by (simp add: weighted_gini proxy proxy_improvement_def)
qed

lemma best_split_first_max:
  assumes "best_split cs fs S = Some b"
  shows "b \<in> set (split_candidates cs fs S) \<and>
         (\<forall>c\<in>set (split_candidates cs fs S). sr_proxy c \<le> sr_proxy b)"
proof -
  have "find (first_max_of (split_candidates cs fs S)) (split_candidates cs fs S) = Some b"
    using assms foldl_better_first_max by (simp add: best_split_def split_candidates_def)
  then show ?thesis using find_Some_mem by fast
qed

text \<open>C17. The splitter's scan equals its reference: \<open>best_split\<close> returns the first
  candidate, in visiting order, whose proxy improvement is not exceeded by any other.\<close>

theorem best_split_eq_ref: "best_split cs fs S = best_split_ref cs fs S"
  by (simp add: best_split_def best_split_ref_def split_candidates_def foldl_better_first_max
                list_all_iff)

text \<open>C18. What the proxy stands for: the split the splitter takes has the least weighted
  Gini impurity of the two children, \<open>n_left * gini(left) + n_right * gini(right)\<close>,
  among all candidate splits of the node.\<close>

theorem best_split_min_impurity:
  assumes "best_split cs fs S = Some b" and "c \<in> set (split_candidates cs fs S)"
  shows "real (length (sr_left b)) * gini cs (sr_left b) + real (length (sr_right b)) * gini cs (sr_right b)
         \<le> real (length (sr_left c)) * gini cs (sr_left c) + real (length (sr_right c)) * gini cs (sr_right c)"
proof -
  note bm = best_split_first_max [OF assms(1)]
  then have "sr_proxy c \<le> sr_proxy b" using assms(2) by blast
  moreover have "b \<in> set (split_candidates cs fs S)" using bm by blast
  ultimately show ?thesis using candidate_weighted [OF assms(2)] candidate_weighted [of b cs fs S] by simp
qed

theorem best_split_min_impurity_witness:
  "real 1 * gini [0, 1] [([1], 0)] + real 2 * gini [0, 1] [([2], 1), ([3 :: real], 1 :: nat)]
   \<le> real 2 * gini [0, 1] [([1], 0), ([2], 1)] + real 1 * gini [0, 1] [([3 :: real], 1 :: nat)]"
proof -
  have b: "best_split [0, 1] [0] [([1], 0), ([2], 1), ([3 :: real], 1 :: nat)] = Some \<lparr>sr_feature = 0, sr_threshold = 3 / 2, sr_left = [([1], 0)], sr_right = [([2], 1), ([3], 1)], sr_proxy = 3\<rparr>" by code_simp
  have c: "\<lparr>sr_feature = 0, sr_threshold = 5 / 2, sr_left = [([1], 0), ([2], 1)], sr_right = [([3], 1)], sr_proxy = 2\<rparr> \<in> set (split_candidates [0, 1] [0] [([1], 0), ([2], 1), ([3 :: real], 1 :: nat)])" by code_simp
  show ?thesis using best_split_min_impurity [OF b c] by simp
qed

lemma sq_share_split:
  assumes "distinct cs" and "L \<noteq> []" and "R \<noteq> []"
    and "\<And>c. count_list (map snd S) c = count_list (map snd L) c + count_list (map snd R) c"
    and "length S = length L + length R"
  shows "sq_sum (node_counts cs S) / real (length S) \<le> proxy_improvement cs L R"
proof -
  let ?a = "\<lambda>c. real (count_list (map snd L) c)" and ?b = "\<lambda>c. real (count_list (map snd R) c)"
  have x: "0 < real (length L)" and y: "0 < real (length R)" using assms(2,3) by simp_all
  have "sq_sum (node_counts cs S) / real (length S) =
        (\<Sum>c\<in>set cs. (?a c + ?b c) ^ 2 / (real (length L) + real (length R)))"
    using assms(1,4,5) by (simp add: sq_sum_as_sum sum_divide_distrib)
  also have "\<dots> \<le> (\<Sum>c\<in>set cs. ?a c ^ 2 / real (length L) + ?b c ^ 2 / real (length R))"
    using split_square_mono [OF x y] by (intro sum_mono) blast
  also have "\<dots> = proxy_improvement cs L R"
    using assms(1)
    by (simp add: proxy_improvement_def sq_sum_as_sum sum.distrib sum_divide_distrib)
  finally show ?thesis .
qed

text \<open>C19. A split never raises the impurity: for every candidate split of a node whose
  labels are among the classes, the weighted Gini impurity of the two children is at most
  that of the node, \<open>n * gini(node)\<close>.\<close>

theorem split_reduces_impurity:
  assumes "c \<in> set (split_candidates cs fs S)" and "distinct cs" and "set (map snd S) \<subseteq> set cs"
  shows "real (length (sr_left c)) * gini cs (sr_left c) + real (length (sr_right c)) * gini cs (sr_right c)
         \<le> real (length S) * gini cs S"
proof -
  note cp = candidate_parts [OF assms(1)]
  then obtain P where P: "sr_left c = filter P S" "sr_right c = filter (\<lambda>s. \<not> P s) S" by blast
  have ne: "S \<noteq> []" using cp by auto
  have "sq_sum (node_counts cs S) / real (length S) \<le> proxy_improvement cs (sr_left c) (sr_right c)"
    using cp by (intro sq_share_split [OF assms(2)]) (simp_all add: P count_list_partition)
  moreover have "sr_proxy c = proxy_improvement cs (sr_left c) (sr_right c)"
    using assms(1) by (auto simp: split_candidates_def feature_splits_def split_at_def Let_def)
  ultimately show ?thesis using candidate_weighted [OF assms(1)] weighted_gini [OF ne, of cs] by simp
qed

theorem split_reduces_impurity_witness:
  "real 2 * gini [0, 1] [([1], 0), ([2], 1)] + real 1 * gini [0, 1] [([3 :: real], 1 :: nat)]
   \<le> real 3 * gini [0, 1] [([1], 0), ([2], 1), ([3 :: real], 1 :: nat)]"
proof -
  have c: "\<lparr>sr_feature = 0, sr_threshold = 5 / 2, sr_left = [([1], 0), ([2], 1)], sr_right = [([3], 1)], sr_proxy = 2\<rparr> \<in> set (split_candidates [0, 1] [0] [([1], 0), ([2], 1), ([3 :: real], 1 :: nat)])" by code_simp
  have "distinct [0, 1 :: nat]" "set (map snd [([1], 0), ([2], 1), ([3 :: real], 1 :: nat)]) \<subseteq> set [0, 1]" by simp_all
  from split_reduces_impurity [OF c this] show ?thesis by simp
qed

text \<open>C20. The model's leaf test \<open>is_pure\<close> is the source's test on the impurity: for a
  non-empty node whose labels are among the classes, the Gini impurity is 0 exactly when
  all labels agree.\<close>

theorem gini_zero_iff_pure:
  assumes "S \<noteq> []" and "distinct cs" and "set (map snd S) \<subseteq> set cs"
  shows "gini cs S = 0 \<longleftrightarrow> is_pure S"
proof -
  let ?n = "length S" and ?k = "\<lambda>c. count_list (map snd S) c"
  have n0: "0 < real ?n" using assms(1) by simp
  have g: "gini cs S = 0 \<longleftrightarrow> sq_sum (node_counts cs S) = real ?n * real ?n"
    using n0 by (simp add: gini_def divide_eq_1_iff) (rule eq_commute)
  have sq: "sq_sum (node_counts cs S) = (\<Sum>c\<in>set cs. real (?k c) * real (?k c))"
    using assms(2) by (simp add: sq_sum_as_sum power2_eq_square)
  have nn: "real ?n * real ?n = (\<Sum>c\<in>set cs. real (?k c) * real ?n)"
    using size_as_sum [OF assms(2,3)] by (simp add: sum_distrib_right)
  show ?thesis
  proof
    assume "gini cs S = 0"
    show "is_pure S"
    proof (rule ccontr)
      assume np: "\<not> is_pure S"
      let ?l = "snd (hd S)"
      obtain s where s: "s \<in> set S" "snd s \<noteq> ?l" using np by (auto simp: is_pure_def list_all_iff)
      have l: "?l \<in> set cs" using assms(1,3) by (cases S) auto
      have "0 < ?k ?l" using assms(1) by (cases S) auto
      moreover have "?k ?l < ?n"
        using count_list_less_length [of "snd s" "map snd S" ?l] s by simp
      ultimately have "real (?k ?l) * real (?k ?l) < real (?k ?l) * real ?n" by simp
      moreover have "\<forall>c\<in>set cs. real (?k c) * real (?k c) \<le> real (?k c) * real ?n"
        using count_list_le_length [of "map snd S"] by (simp add: mult_left_mono)
      ultimately have "(\<Sum>c\<in>set cs. real (?k c) * real (?k c)) < (\<Sum>c\<in>set cs. real (?k c) * real ?n)"
        using l by (intro sum_strict_mono_ex1) auto
      then show False using \<open>gini cs S = 0\<close> g sq nn by simp
    qed
  next
    assume p: "is_pure S"
    let ?l = "snd (hd S)"
    have k: "?k c = (if c = ?l then ?n else 0)" for c
    proof -
      have "map snd S = replicate ?n ?l"
        using p by (intro replicate_eqI) (auto simp: is_pure_def list_all_iff)
      then show ?thesis by (simp add: count_list_replicate_eq)
    qed
    have l: "?l \<in> set cs" using assms(1,3) by (cases S) auto
    have "(\<Sum>c\<in>set cs. real (?k c) * real (?k c)) = (\<Sum>c\<in>set cs. real (?k c) * real ?n)"
      by (rule sum.cong) (simp_all add: k)
    then show "gini cs S = 0" using g sq nn by simp
  qed
qed

theorem gini_zero_iff_pure_witness:
  "gini [0, 1] [([1], 1), ([2 :: real], 1 :: nat)] = 0 \<and> gini [0, 1] [([1], 0), ([2], 1), ([3 :: real], 1 :: nat)] \<noteq> 0"
proof -
  have "[([1], 1), ([2 :: real], 1 :: nat)] \<noteq> []" "distinct [0, 1 :: nat]"
    "set (map snd [([1], 1), ([2 :: real], 1 :: nat)]) \<subseteq> set [0, 1]" by simp_all
  note p = gini_zero_iff_pure [OF this]
  have "[([1], 0), ([2], 1), ([3 :: real], 1 :: nat)] \<noteq> []" "distinct [0, 1 :: nat]" "set (map snd [([1], 0), ([2], 1), ([3 :: real], 1 :: nat)]) \<subseteq> set [0, 1]" by simp_all
  note q = gini_zero_iff_pure [OF this]
  have "is_pure [([1], 1), ([2 :: real], 1 :: nat)]" "\<not> is_pure [([1], 0), ([2], 1), ([3 :: real], 1 :: nat)]" by (simp_all add: is_pure_def)
  then show ?thesis using p q by simp
qed

end
