(* ===== verification/DotStyle.thy ===== *)
theory DotStyle
  imports Export Gini
begin

text \<open>
  The text and colours scikit-learn's \<open>export_graphviz\<close> writes into a node of the DOT file
  (src/assets/code/decision_tree_example.py, lines 32-36, with \<open>filled=True\<close> and
  \<open>special_characters=True\<close>), as the concrete \<open>dot_style\<close> \<open>sklearn_style\<close> of the
  exporter model: \<open>_color_brew\<close> (\<open>color_brew\<close>, its loop body \<open>brew_hue\<close>),
  \<open>get_color\<close> (with \<open>color_alpha\<close>) and \<open>get_fill_color\<close> (\<open>get_fill_rgb\<close>), and the
  statistics lines of \<open>node_to_str\<close> (\<open>sk_node_stats\<close>: \<open>gini = \<close>, \<open>samples = \<close>,
  \<open>value = \<close>). The printed threshold and impurity are \<open>str(round(x, 3))\<close>
  (\<open>py_round3_str\<close>); the value line is numpy's \<open>str\<close> of the counts as an \<open>'S32'\<close>
  array, laid out by \<open>format_array\<close> of the Report theory, then edited by four
  \<open>str.replace\<close> calls (\<open>value_text\<close>, \<open>py_replace\<close>).

  Arithmetic is exact: \<open>int()\<close> of a non-negative float is \<open>\<lfloor>_\<rfloor>\<close>, Python's \<open>round\<close>
  rounds half to even (\<open>py_round\<close>), and a float differing from the exact value only in
  its last bits is not modelled. \<open>str\<close> of a rounded value is its shortest decimal form
  with at least one digit after the point, as Python's \<open>repr\<close> writes floats below
  \<open>10\<^sup>1\<^sup>6\<close>. The node's \<open>value\<close> holds class counts (scikit-learn before 1.4), and
  \<open>np.arange(25, 385, 360 / n)\<close> is taken to have \<open>n\<close> elements (a float rounding that
  yields one more hue adds a colour no class uses).

  Theorems: every fill colour is a well-formed \<open>#rrggbb\<close> code; a pure node gets its
  class's palette colour, a node whose two largest classes tie is white; the printed
  rounded numbers read back within 0.0005; the value line lists the class counts in
  order; the printed impurity is the splitter's Gini impurity of the node's samples.
\<close>

definition py_round :: "real \<Rightarrow> int" where
  "py_round x =
     (let f = \<lfloor>x\<rfloor>; d = x - of_int f
      in if d < 1 / 2 then f else if 1 / 2 < d then f + 1 else if even f then f else f + 1)"

text \<open>\<open>_color_brew(n)\<close>: \<open>n\<close> colours of saturation \<open>s = 0.75\<close> and value
  \<open>v = 0.9\<close> at the hues \<open>np.arange(25, 385, 360 / n).astype(int)\<close>; \<open>brew_hue\<close> is the
  body of its loop, the HSV to RGB conversion of one hue.\<close>

definition brew_hue :: "nat \<Rightarrow> nat \<times> nat \<times> nat" where
  "brew_hue h =
     (let s = 3 / 4 :: real; v = 9 / 10; c = s * v; m = v - c;
          h_bar = real h / 60;
          x = c * (1 - \<bar>(h_bar - 2 * of_int \<lfloor>h_bar / 2\<rfloor>) - 1\<bar>);
          rgb = [(c, x, 0), (x, c, 0), (0, c, x), (0, x, c), (x, 0, c), (c, 0, x), (c, x, 0)]
                  ! nat \<lfloor>h_bar\<rfloor>
      in case rgb of (r, g, b) \<Rightarrow>
           (nat \<lfloor>255 * (r + m)\<rfloor>, nat \<lfloor>255 * (g + m)\<rfloor>, nat \<lfloor>255 * (b + m)\<rfloor>))"

definition color_brew :: "nat \<Rightarrow> (nat \<times> nat \<times> nat) list" where
  "color_brew n = map (\<lambda>i. brew_hue (nat \<lfloor>25 + real i * (360 / real n)\<rfloor>)) [0..<n]"

text \<open>\<open>np.argmax\<close> of a float array: the first position of the maximum.\<close>

fun argmax_real_aux :: "nat \<Rightarrow> nat \<Rightarrow> real \<Rightarrow> real list \<Rightarrow> nat" where
  "argmax_real_aux i bi bv [] = bi"
| "argmax_real_aux i bi bv (x # xs) =
     (if bv < x then argmax_real_aux (Suc i) i x xs else argmax_real_aux (Suc i) bi bv xs)"

definition argmax_real :: "real list \<Rightarrow> nat" where
  "argmax_real v = (case v of [] \<Rightarrow> 0 | x # xs \<Rightarrow> argmax_real_aux 1 0 x xs)"

text \<open>\<open>get_color(value)\<close> for a classification tree: the colour of the majority class
  blended with white by \<open>alpha\<close> (\<open>color_alpha\<close>), computed from the two largest class
  proportions \<open>s\<^sub>0 \<ge> s\<^sub>1\<close> of \<open>sorted(value, reverse=True)\<close> as
  \<open>(s\<^sub>0 - s\<^sub>1) / (1 - s\<^sub>1)\<close>, and \<open>0\<close> for a single class.\<close>

definition color_alpha :: "real list \<Rightarrow> real" where
  "color_alpha value =
     (let sorted_values = rev (sort value)
      in if length sorted_values = 1 then 0
         else (sorted_values ! 0 - sorted_values ! 1) / (1 - sorted_values ! 1))"

definition get_color :: "(nat \<times> nat \<times> nat) list \<Rightarrow> real list \<Rightarrow> nat \<times> nat \<times> nat" where
  "get_color colors value =
     (let color = colors ! argmax_real value;
          alpha = color_alpha value;
          blend = (\<lambda>c. nat (py_round (alpha * real c + (1 - alpha) * 255)))
      in case color of (r, g, b) \<Rightarrow> (blend r, blend g, blend b))"

text \<open>\<open>get_fill_color(tree, node_id)\<close>: the palette \<open>_color_brew(n_classes)\<close> and the
  node's class proportions \<open>value / weighted_n_node_samples\<close>.\<close>

definition get_fill_rgb :: "nat list \<Rightarrow> nat \<times> nat \<times> nat" where
  "get_fill_rgb v = get_color (color_brew (length v)) (map (\<lambda>k. real k / real (sum_list v)) v)"

text \<open>\<open>str(round(x, 3))\<close>: the sign (also of a value rounded to zero), the integer part,
  and the three decimals without trailing zeros, at least one digit.\<close>

definition frac3_str :: "nat \<Rightarrow> string" where
  "frac3_str f =
     (let ds = rev (dropWhile (\<lambda>c. c = CHR ''0'') (rev (replicate (3 - length (nat_str f)) CHR ''0'' @ nat_str f)))
      in if ds = [] then ''0'' else ds)"

definition py_round3_str :: "real \<Rightarrow> string" where
  "py_round3_str x =
     (let q = nat (py_round (\<bar>x\<bar> * 1000))
      in (if x < 0 then ''-'' else []) @ nat_str (q div 1000) @ ''.'' @ frac3_str (q mod 1000))"

text \<open>Reading the decimal text of a number back: an optional sign, the integer digits, a
  point and the fraction digits.\<close>

definition parse_decimal :: "string \<Rightarrow> real option" where
  "parse_decimal s =
     (let neg = (s \<noteq> [] \<and> hd s = CHR ''-'');
          r = (if neg then tl s else s);
          ip = takeWhile (\<lambda>c. c \<noteq> CHR ''.'') r;
          fp = drop (Suc (length ip)) r
      in if CHR ''.'' \<notin> set r then None
         else case (parse_nat ip, parse_nat fp) of
                (Some a, Some b) \<Rightarrow> Some ((if neg then -1 else 1) * (real a + real b / 10 ^ length fp))
              | _ \<Rightarrow> None)"

definition node_gini :: "nat list \<Rightarrow> real" where
  "node_gini v = 1 - sq_sum v / (real (sum_list v) * real (sum_list v))"

text \<open>Python's \<open>str.replace(old, new)\<close> for a non-empty \<open>old\<close> (every call below passes
  a non-empty literal): occurrences are replaced from left to right, without overlap.\<close>

fun py_replace :: "string \<Rightarrow> string \<Rightarrow> string \<Rightarrow> string" where
  "py_replace old new [] = []"
| "py_replace old new (c # cs) =
     (if old \<noteq> [] \<and> take (length old) (c # cs) = old
      then new @ py_replace old new (drop (length old - 1) cs)
      else c # py_replace old new cs)"

definition apos :: char where
  "apos = CHR 0x27"

definition br :: string where
  "br = ''<br/>''"

text \<open>The separator \<open>_formatArray\<close> leaves between two words: one space, or a line break
  followed by the hanging indent.\<close>

definition line_sep :: "bool \<Rightarrow> string" where
  "line_sep b = (if b then [newline, CHR '' ''] else '' '')"

text \<open>\<open>repr\<close> of a \<open>bytes\<close> value of digits, and numpy's \<open>str\<close> of a one-dimensional
  \<open>'S32'\<close> array: the elements' \<open>repr\<close>s, unpadded, laid out by \<open>_formatArray\<close> as for
  any other dtype.\<close>

definition bytes_repr :: "string \<Rightarrow> string" where
  "bytes_repr b = ''b'' @ [apos] @ b @ [apos]"

definition np_bytes_str :: "string list \<Rightarrow> string" where
  "np_bytes_str bs =
     (if bs = [] then ''[]''
      else format_array
             (if np_threshold < length bs \<and> 2 * np_edgeitems < length bs
              then map bytes_repr (take np_edgeitems bs) @ [''...''] @
                   map bytes_repr (drop (length bs - np_edgeitems) bs)
              else map bytes_repr bs))"

text \<open>The \<open>value = \<close> text of \<open>node_to_str\<close> for integral class counts:
  \<open>str(value.astype(int).astype("S32"))\<close>, then the replacements of \<open>"b'"\<close> by
  \<open>"'"\<close>, of \<open>"' '"\<close> by \<open>", "\<close>, of \<open>"'"\<close> by nothing, and of a line break with
  its hanging indent by \<open>"<br/>"\<close>.\<close>

definition value_text :: "nat list \<Rightarrow> string" where
  "value_text v =
     py_replace [newline, CHR '' ''] br
       (py_replace [apos] []
         (py_replace [apos, CHR '' '', apos] '', ''
           (py_replace [CHR ''b'', apos] [apos] (np_bytes_str (map nat_str v)))))"

text \<open>The statistics lines of \<open>node_to_str\<close> (\<open>impurity=True\<close>, \<open>label='all'\<close>,
  \<open>proportion=False\<close>): the criterion's impurity of the node, its sample count and
  its class counts, each closed by \<open><br/>\<close>.\<close>

definition sk_node_stats :: "nat list \<Rightarrow> string" where
  "sk_node_stats v =
     ''gini = '' @ py_round3_str (node_gini v) @ br @
     ''samples = '' @ nat_str (sum_list v) @ br @
     ''value = '' @ value_text v @ br"

definition sklearn_style :: dot_style where
  "sklearn_style = \<lparr>fmt_threshold = py_round3_str, node_stats = sk_node_stats, fill_rgb = get_fill_rgb\<rparr>"

subsection \<open>Rounding\<close>

lemma py_round_close: "\<bar>of_int (py_round x) - x\<bar> \<le> 1 / 2"
proof -
  have f: "of_int \<lfloor>x\<rfloor> \<le> x" "x < of_int \<lfloor>x\<rfloor> + 1" by linarith+
  show ?thesis using f by (auto simp: py_round_def Let_def)
qed

lemma py_round_le:
  assumes "x \<le> of_int k"
  shows "py_round x \<le> k"
proof -
  have "real_of_int (py_round x) < real_of_int (k + 1)"
    using abs_le_D1 [OF py_round_close [of x]] assms by simp
  then have "py_round x < k + 1" by (simp only: of_int_less_iff)
  then show ?thesis by simp
qed

lemma py_round_ge:
  assumes "of_int k \<le> x"
  shows "k \<le> py_round x"
proof -
  have "real_of_int (k - 1) < real_of_int (py_round x)"
    using abs_le_D2 [OF py_round_close [of x]] assms by simp
  then have "k - 1 < py_round x" by (simp only: of_int_less_iff)
  then show ?thesis by simp
qed

lemma py_round_of_int [simp]: "py_round (of_int k) = k"
  by (simp add: py_round_def)

lemma py_round_numeral [simp]: "py_round (numeral n) = numeral n"
  using py_round_of_int [of "numeral n"] by simp

lemma py_round_of_nat [simp]: "py_round (of_nat n) = int n"
  using py_round_of_int [of "int n"] by simp

subsection \<open>Colours\<close>

lemma brew_component_le:
  assumes "y \<le> 3 / 4 * (9 / 10)"
  shows "nat \<lfloor>255 * (y + (9 / 10 - 3 / 4 * (9 / 10)) :: real)\<rfloor> \<le> 255"
proof -
  let ?z = "255 * (y + (9 / 10 - 3 / 4 * (9 / 10))) :: real"
  have "?z < of_int 256" using assms by simp
  then have "\<lfloor>?z\<rfloor> < 256" by (simp only: floor_less_iff)
  then show ?thesis by (simp add: nat_le_iff)
qed

lemma color_brew_length [simp]: "length (color_brew n) = n"
  by (simp add: color_brew_def)

lemma brew_hue_le:
  assumes "h < 385"
  shows "fst (brew_hue h) \<le> 255 \<and> fst (snd (brew_hue h)) \<le> 255 \<and> snd (snd (brew_hue h)) \<le> 255"
proof -
  let ?c = "3 / 4 * (9 / 10) :: real"
  define hb :: real where "hb = real h / 60"
  define x :: real where "x = ?c * (1 - \<bar>(hb - 2 * of_int \<lfloor>hb / 2\<rfloor>) - 1\<bar>)"
  have i: "nat \<lfloor>hb\<rfloor> < 7" using assms unfolding hb_def by linarith
  have "0 \<le> hb / 2 - of_int \<lfloor>hb / 2\<rfloor>" "hb / 2 - of_int \<lfloor>hb / 2\<rfloor> < 1" by linarith+
  then have x: "x \<le> ?c" unfolding x_def by (auto simp: abs_le_iff)
  let ?l = "[(?c, x, 0), (x, ?c, 0), (0, ?c, x), (0, x, ?c), (x, 0, ?c), (?c, 0, x), (?c, x, 0)]"
  have all: "\<forall>t\<in>set ?l. fst t \<le> ?c \<and> fst (snd t) \<le> ?c \<and> snd (snd t) \<le> ?c"
    using x by simp
  have m: "?l ! nat \<lfloor>hb\<rfloor> \<in> set ?l" using i by (intro nth_mem) simp
  obtain yr yg yb where y: "?l ! nat \<lfloor>hb\<rfloor> = (yr, yg, yb)" by (cases "?l ! nat \<lfloor>hb\<rfloor>") auto
  have b: "yr \<le> ?c" "yg \<le> ?c" "yb \<le> ?c" using bspec [OF all m] y by simp_all
  have "brew_hue h =
        (case ?l ! nat \<lfloor>hb\<rfloor> of (r, g, b) \<Rightarrow>
           (nat \<lfloor>255 * (r + (9 / 10 - ?c))\<rfloor>, nat \<lfloor>255 * (g + (9 / 10 - ?c))\<rfloor>,
            nat \<lfloor>255 * (b + (9 / 10 - ?c))\<rfloor>))"
    unfolding brew_hue_def Let_def hb_def [symmetric] x_def [symmetric] by (rule refl)
  then show ?thesis using b y brew_component_le [of yr] brew_component_le [of yg] brew_component_le [of yb]
    by simp
qed

lemma color_brew_le:
  assumes "k < n"
  shows "fst (color_brew n ! k) \<le> 255 \<and> fst (snd (color_brew n ! k)) \<le> 255 \<and> snd (snd (color_brew n ! k)) \<le> 255"
proof -
  have "real k * (360 / real n) < 360" using assms by (simp add: field_simps)
  then have "nat \<lfloor>25 + real k * (360 / real n)\<rfloor> < 385" by linarith
  then show ?thesis using brew_hue_le assms by (simp add: color_brew_def)
qed

lemma argmax_real_scaled:
  "0 < d \<Longrightarrow> argmax_real_aux i bi (real bv / d) (map (\<lambda>k. real k / d) xs) = argmax_aux i bi bv xs"
  by (induction xs arbitrary: i bi bv) (auto simp: divide_less_cancel)

lemma np_argmax_proportions:
  assumes "v \<noteq> []" "0 < sum_list v"
  shows "np_argmax v = Inr (argmax_real (map (\<lambda>k. real k / real (sum_list v)) v))"
  using assms argmax_real_scaled [of "real (sum_list v)"]
  by (auto simp: np_argmax_def argmax_real_def split: list.split)

lemma proportions_unit:
  "x \<in> set (map (\<lambda>k. real k / real (sum_list v)) v) \<Longrightarrow> 0 \<le> x \<and> x \<le> 1"
  by (auto simp: divide_le_eq_1 member_le_sum_list)

lemma sorted_top_two:
  assumes "2 \<le> length xs"
  shows "rev (sort xs) ! 1 \<le> rev (sort xs) ! 0 \<and> rev (sort xs) ! 0 \<in> set xs \<and> rev (sort xs) ! 1 \<in> set xs"
proof -
  let ?s = "sort xs" and ?n = "length xs"
  have "?s ! (?n - 2) \<le> ?s ! (?n - 1)" using assms by (intro sorted_nth_mono) simp_all
  moreover have "?s ! (?n - 1) \<in> set xs" "?s ! (?n - 2) \<in> set xs"
    using assms nth_mem [of "?n - 1" ?s] nth_mem [of "?n - 2" ?s] by simp_all
  moreover have "rev ?s ! 0 = ?s ! (?n - 1)" "rev ?s ! 1 = ?s ! (?n - 2)"
  proof -
    have "0 < length ?s" "1 < length ?s" using assms by (simp_all only: length_sort)
    then show "rev ?s ! 0 = ?s ! (?n - 1)" "rev ?s ! 1 = ?s ! (?n - 2)"
      by (simp_all add: rev_nth numeral_2_eq_2)
  qed
  ultimately show ?thesis by simp
qed

lemma color_alpha_unit:
  assumes "p \<noteq> []" "\<forall>x\<in>set p. 0 \<le> x \<and> x \<le> 1"
  shows "0 \<le> color_alpha p \<and> color_alpha p \<le> 1"
proof (cases "length p = 1")
  case False
  have "length p \<noteq> 0" using assms(1) by simp
  with False have two: "2 \<le> length p" by arith
  let ?s0 = "rev (sort p) ! 0" and ?s1 = "rev (sort p) ! 1"
  have s: "?s1 \<le> ?s0" "0 \<le> ?s1" "?s0 \<le> 1" using sorted_top_two [OF two] assms(2) by auto
  have a: "color_alpha p = (?s0 - ?s1) / (1 - ?s1)" using False by (simp add: color_alpha_def Let_def)
  show ?thesis
  proof (cases "?s1 = 1")
    case True
    then show ?thesis using a by simp
  next
    case False
    then have "0 < 1 - ?s1" using s by simp
    then show ?thesis using a s by (simp add: divide_le_eq_1)
  qed
qed (simp add: color_alpha_def)

lemma blend_le:
  assumes "0 \<le> a" "a \<le> 1" "c \<le> 255"
  shows "nat (py_round (a * real c + (1 - a) * 255)) \<le> 255"
proof -
  have "a * real c \<le> a * 255" using assms by (intro mult_left_mono) simp_all
  then have "a * real c + (1 - a) * 255 \<le> of_int 255" by (simp add: algebra_simps)
  then have "py_round (a * real c + (1 - a) * 255) \<le> 255" by (rule py_round_le)
  then show ?thesis by simp
qed

lemma get_fill_rgb_le:
  assumes "0 < sum_list v"
  shows "fst (get_fill_rgb v) \<le> 255 \<and> fst (snd (get_fill_rgb v)) \<le> 255 \<and> snd (snd (get_fill_rgb v)) \<le> 255"
proof -
  let ?p = "map (\<lambda>k. real k / real (sum_list v)) v"
  have ne: "v \<noteq> []" using assms by auto
  have k: "argmax_real ?p < length v"
    using np_argmax_proportions [OF ne assms] np_argmax_lt by blast
  have a: "0 \<le> color_alpha ?p \<and> color_alpha ?p \<le> 1"
    using color_alpha_unit [of ?p] proportions_unit ne by simp
  obtain r g b where c: "color_brew (length v) ! argmax_real ?p = (r, g, b)" by (cases "color_brew (length v) ! argmax_real ?p") auto
  have "r \<le> 255" "g \<le> 255" "b \<le> 255" using color_brew_le [OF k] c by simp_all
  then show ?thesis using a c blend_le by (simp add: get_fill_rgb_def get_color_def Let_def)
qed

lemma hex_str_length: "n < 256 \<Longrightarrow> length (hex_str n) \<le> 2"
  by (subst hex_str.simps) (auto simp: hex_str.simps [of "n div 16"] hex_str.simps [of "n mod 16"])

lemma rjust_hex_length: "n \<le> 255 \<Longrightarrow> length (rjust 2 (hex_str n)) = 2"
  using hex_str_length [of n] by (simp add: length_rjust)

lemma count_two_positions:
  assumes "i < length xs" "j < length xs" "i \<noteq> j" "xs ! i = x" "xs ! j = x"
  shows "2 \<le> count (mset xs) x"
proof -
  have "{i, j} \<subseteq> {k. k < length xs \<and> x = xs ! k}" using assms by auto
  then have "card {i, j} \<le> card {k. k < length xs \<and> x = xs ! k}" by (intro card_mono) auto
  then show ?thesis using assms(3) by (simp add: count_mset count_list_eq_length_filter length_filter_conv_card)
qed

lemma count_below_last:
  assumes "xs \<noteq> []" "\<forall>k<length xs - 1. xs ! k \<noteq> x"
  shows "count (mset xs) x \<le> 1"
proof -
  have "{k. k < length xs \<and> x = xs ! k} \<subseteq> {length xs - 1}"
  proof
    fix k assume "k \<in> {k. k < length xs \<and> x = xs ! k}"
    then have "k < length xs" "\<not> k < length xs - 1" using assms(2) by auto
    then show "k \<in> {length xs - 1}" by simp
  qed
  then have "card {k. k < length xs \<and> x = xs ! k} \<le> card {length xs - 1}" by (intro card_mono) auto
  then show ?thesis by (simp add: count_mset count_list_eq_length_filter length_filter_conv_card)
qed

lemma sort_top_two_eq:
  assumes "i < length xs" "j < length xs" "i \<noteq> j" "xs ! i = xs ! j" "\<forall>l<length xs. xs ! l \<le> xs ! i"
  shows "rev (sort xs) ! 0 = xs ! i \<and> rev (sort xs) ! 1 = xs ! i"
proof -
  let ?s = "sort xs" and ?n = "length xs" and ?x = "xs ! i"
  have two: "2 \<le> ?n" using assms(1-3) by linarith
  have top: "rev ?s ! 1 \<le> rev ?s ! 0 \<and> rev ?s ! 0 \<in> set xs \<and> rev ?s ! 1 \<in> set xs"
    using sorted_top_two [OF two] .
  have le: "y \<le> ?x" if "y \<in> set xs" for y using that assms(5) by (auto simp: in_set_conv_nth)
  have r: "rev ?s ! 0 = ?s ! (?n - 1)" "rev ?s ! 1 = ?s ! (?n - 2)"
  proof -
    have "0 < length ?s" "1 < length ?s" using two by (simp_all only: length_sort)
    then show "rev ?s ! 0 = ?s ! (?n - 1)" "rev ?s ! 1 = ?s ! (?n - 2)"
      by (simp_all add: rev_nth numeral_2_eq_2)
  qed
  have "?x \<in> set ?s" using assms(1) by simp
  then obtain m where m: "m < length ?s" "?s ! m = ?x" by (metis in_set_conv_nth)
  have "?s ! m \<le> ?s ! (?n - 1)" using m(1) by (intro sorted_nth_mono) (auto simp: length_sort)
  then have s0: "rev ?s ! 0 = ?x" using r(1) m(2) le top by fastforce
  have s1: "rev ?s ! 1 = ?x"
  proof (rule ccontr)
    assume ne: "rev ?s ! 1 \<noteq> ?x"
    then have lt: "?s ! (?n - 2) < ?x" using le top r(2) by fastforce
    have "\<forall>k<length ?s - 1. ?s ! k \<noteq> ?x"
    proof (intro allI impI)
      fix k assume "k < length ?s - 1"
      then have "?s ! k \<le> ?s ! (?n - 2)" by (intro sorted_nth_mono) auto
      then show "?s ! k \<noteq> ?x" using lt by simp
    qed
    then have "count (mset ?s) ?x \<le> 1" using count_below_last [of ?s] two by fastforce
    moreover have "2 \<le> count (mset xs) ?x" using count_two_positions [OF assms(1-3) refl] assms(4) by simp
    ultimately show False by simp
  qed
  show ?thesis using s0 s1 by simp
qed

lemma sort_single_one:
  "sort (replicate a 0 @ 1 # replicate b (0 :: real)) = replicate (a + b) 0 @ [1]"
  by (rule properties_for_sort) (auto simp: sorted_append replicate_add)

lemma nth_single_class:
  "m < Suc (k + r) \<Longrightarrow> (replicate k 0 @ [c] @ replicate r 0) ! m = (if m = k then c else 0)"
  by (auto simp: nth_append nth_Cons split: nat.split)

lemma np_argmax_pure:
  assumes "0 < c"
  shows "np_argmax (replicate k 0 @ [c] @ replicate r 0) = Inr k"
proof -
  let ?v = "replicate k 0 @ [c] @ replicate r 0"
  obtain k' where k': "np_argmax ?v = Inr k'" using np_argmax_nonempty [of ?v] by auto
  have l: "k' < Suc (k + r)" using np_argmax_lt [OF k'] by simp
  have "?v ! k \<le> ?v ! k'" using np_argmax_first_max [OF k'] by simp
  then have "k' = k" using assms nth_single_class [OF l, where c = c] nth_single_class [of k k r c]
    by (auto split: if_splits)
  then show ?thesis using k' by simp
qed

subsection \<open>Decimal text of rounded numbers\<close>

lemma foldl_digits_shift:
  "foldl (\<lambda>n c. 10 * n + the (digit_val c)) m b =
   m * 10 ^ length b + foldl (\<lambda>n c. 10 * n + the (digit_val c)) 0 b"
proof (induction b arbitrary: m)
  case (Cons c b)
  show ?case
    using Cons.IH [of "10 * m + the (digit_val c)"] Cons.IH [of "the (digit_val c)"]
    by (simp add: algebra_simps)
qed simp

lemma digit_val_zero [simp]: "digit_val CHR ''0'' = Some 0"
  by (simp add: digit_val_def)

lemma foldl_digits_zeros [simp]:
  "foldl (\<lambda>n c. 10 * n + the (digit_val c)) 0 (replicate k CHR ''0'') = 0"
  by (induction k) simp_all

lemma parse_nat_leading_zeros:
  "parse_nat s = Some n \<Longrightarrow> parse_nat (replicate k CHR ''0'' @ s) = Some n"
  by (auto simp: parse_nat_def split: if_splits)

lemma parse_nat_trailing_zeros:
  assumes "parse_nat s = Some n"
  shows "parse_nat (s @ replicate k CHR ''0'') = Some (n * 10 ^ k)"
proof -
  let ?F = "\<lambda>n c. 10 * n + the (digit_val c)"
  have s: "s \<noteq> []" "\<forall>c\<in>set s. digit_val c \<noteq> None" "foldl ?F 0 s = n"
    using assms by (auto simp: parse_nat_def split: if_splits)
  have "foldl ?F 0 (s @ replicate k CHR ''0'') = foldl ?F n (replicate k CHR ''0'')"
    using s(3) by simp
  also have "\<dots> = n * 10 ^ k" using foldl_digits_shift [of n "replicate k CHR ''0''"] by simp
  finally show ?thesis using s(1,2) by (auto simp: parse_nat_def)
qed

lemma parse_nat_prefix:
  "parse_nat (a @ b) \<noteq> None \<Longrightarrow> a \<noteq> [] \<Longrightarrow> parse_nat a \<noteq> None"
  by (auto simp: parse_nat_def split: if_splits)

lemma nat_str_le3: "f < 1000 \<Longrightarrow> length (nat_str f) \<le> 3"
proof -
  assume "f < 1000"
  then have "length (nat_str f) \<le> length (nat_str 999)" by (intro nat_str_length_mono) simp
  also have "length (nat_str 999) = 3" by code_simp
  finally show ?thesis .
qed

lemma frac3_str_value:
  assumes "f < 1000"
  shows "\<exists>b. parse_nat (frac3_str f) = Some b \<and> real b / 10 ^ length (frac3_str f) = real f / 1000"
proof -
  let ?d = "replicate (3 - length (nat_str f)) CHR ''0'' @ nat_str f"
  let ?z = "\<lambda>c. c = CHR ''0''"
  have ld: "length ?d = 3" using nat_str_le3 [OF assms] by simp
  have pd: "parse_nat ?d = Some f" by (rule parse_nat_leading_zeros) (rule parse_nat_nat_str)
  define ds where "ds = rev (dropWhile ?z (rev ?d))"
  define m where "m = length (takeWhile ?z (rev ?d))"
  have B: "takeWhile ?z (rev ?d) = replicate m CHR ''0''"
    unfolding m_def by (rule replicate_length_same [symmetric]) (auto dest: set_takeWhileD)
  have C: "rev ds = dropWhile ?z (rev ?d)" unfolding ds_def by (rule rev_rev_ident)
  have E: "rev ?d = replicate m CHR ''0'' @ rev ds"
    unfolding B [symmetric] C by (rule takeWhile_dropWhile_id [symmetric])
  have "?d = rev (rev ?d)" by (rule rev_rev_ident [symmetric])
  also have "\<dots> = ds @ replicate m CHR ''0''" unfolding E by simp
  finally have dd: "?d = ds @ replicate m CHR ''0''" .
  have lm: "length ds + m = 3" using arg_cong [OF dd, of length] ld by simp
  have fr: "frac3_str f = (if ds = [] then ''0'' else ds)"
    unfolding frac3_str_def ds_def Let_def by (rule refl)
  show ?thesis
  proof (cases "ds = []")
    case True
    then have "parse_nat (replicate m CHR ''0'') = Some f" using pd dd by simp
    then have "f = 0" by (simp add: parse_nat_def split: if_splits)
    moreover have "parse_nat ''0'' = Some 0" by (simp add: parse_nat_def)
    ultimately show ?thesis using True fr by simp
  next
    case False
    then obtain b where b: "parse_nat ds = Some b" using parse_nat_prefix [of ds] pd dd by fastforce
    then have f: "f = b * 10 ^ m" using parse_nat_trailing_zeros [OF b, of m] pd dd by simp
    have m: "length ds = 3 - m" "m \<le> 3" using lm by simp_all
    have p: "(10 :: real) ^ 3 = 10 ^ (3 - m) * 10 ^ m" using m(2) by (simp flip: power_add)
    have "real b / 10 ^ length ds = real f / 1000"
      unfolding f m(1) using p by (simp add: field_simps)
    then show ?thesis using False fr b by simp
  qed
qed

subsection \<open>The layout of a wrapped array\<close>

lemma rstrip_word_space:
  "L \<noteq> [] \<Longrightarrow> \<not> py_isspace (last L) \<Longrightarrow> rstrip (L @ '' '') = L"
proof -
  assume "L \<noteq> []" "\<not> py_isspace (last L)"
  then obtain a c where "L = a @ [c]" "\<not> py_isspace c" by (metis append_butlast_last_id)
  then show ?thesis by (simp add: rstrip_def)
qed

lemma extend_line_join:
  assumes "extend_line s (L @ '' '') x W '' '' = (s1, l1)" "L \<noteq> []" "\<not> py_isspace (last L)" "x \<noteq> []"
  shows "\<exists>b. s1 @ l1 = s @ L @ line_sep b @ x \<and> l1 \<noteq> [] \<and> last l1 = last x"
proof (cases "W < length (L @ '' '') + length x \<and> length '' '' < length (L @ '' '')")
  case True
  then have "s1 = s @ L @ [newline]" "l1 = '' '' @ x"
    using assms(1) rstrip_word_space [OF assms(2,3)] by (simp_all add: extend_line_def)
  then show ?thesis using assms(4) by (intro exI [of _ True]) (simp add: line_sep_def)
next
  case False
  then have "s1 = s" "l1 = L @ '' '' @ x"
    using assms(1) unfolding extend_line_def by (auto split: if_split_asm)
  then show ?thesis using assms(4) by (intro exI [of _ False]) (simp add: line_sep_def)
qed

lemma format_row_join:
  "format_row W '' '' s (L @ '' '') ws = (s', l') \<Longrightarrow> L \<noteq> [] \<Longrightarrow> \<not> py_isspace (last L) \<Longrightarrow>
   ws \<noteq> [] \<Longrightarrow> \<forall>w\<in>set ws. w \<noteq> [] \<and> \<not> py_isspace (last w) \<Longrightarrow>
   \<exists>bs. length bs = length ws \<and> s' @ l' = s @ L @ concat (map2 (\<lambda>b w. line_sep b @ w) bs ws)"
proof (induction ws arbitrary: s L s' l' rule: induct_list012)
  case (2 x)
  then obtain b where "s' @ l' = s @ L @ line_sep b @ x" using extend_line_join [of s L x W s' l'] by auto
  then show ?case by (intro exI [of _ "[b]"]) simp
next
  case (3 x y zs)
  obtain s1 l1 where e: "extend_line s (L @ '' '') x W '' '' = (s1, l1)" by fastforce
  obtain b where b: "s1 @ l1 = s @ L @ line_sep b @ x" "l1 \<noteq> []" "last l1 = last x"
    using extend_line_join [OF e "3.prems"(2,3)] "3.prems"(5) by auto
  have "format_row W '' '' s1 (l1 @ '' '') (y # zs) = (s', l')" using "3.prems"(1) e by simp
  then obtain bs where "length bs = length (y # zs)"
    "s' @ l' = s1 @ l1 @ concat (map2 (\<lambda>b w. line_sep b @ w) bs (y # zs))"
    using "3.IH"(2) [of s1 l1 s' l'] b(2,3) "3.prems"(5) by auto
  then show ?case using b(1) by (intro exI [of _ "b # bs"]) simp
qed simp

lemma format_array_join:
  assumes "\<forall>w\<in>set (w0 # ws). w \<noteq> [] \<and> \<not> py_isspace (last w)"
  shows "\<exists>bs. length bs = length ws \<and>
           format_array (w0 # ws) = ''['' @ w0 @ concat (map2 (\<lambda>b w. line_sep b @ w) bs ws) @ '']''"
proof -
  have e: "extend_line [] '' '' w0 (np_linewidth - 1) '' '' = ([], '' '' @ w0)" by (simp add: extend_line_def)
  obtain s l where f: "format_row (np_linewidth - 1) '' '' [] '' '' (w0 # ws) = (s, l)" by fastforce
  have "\<exists>bs. length bs = length ws \<and> s @ l = '' '' @ w0 @ concat (map2 (\<lambda>b w. line_sep b @ w) bs ws)"
  proof (cases ws)
    case Nil
    then show ?thesis using f e by simp
  next
    case (Cons y zs)
    then have "format_row (np_linewidth - 1) '' '' [] ((CHR '' '' # w0) @ '' '') ws = (s, l)" using f e by simp
    moreover have "\<not> py_isspace (last (CHR '' '' # w0))" using assms by simp
    ultimately show ?thesis using format_row_join [of _ "[]" "CHR '' '' # w0" ws s l] assms Cons by auto
  qed
  then obtain bs where bs: "length bs = length ws"
    "s @ l = '' '' @ w0 @ concat (map2 (\<lambda>b w. line_sep b @ w) bs ws)" by blast
  have "format_array (w0 # ws) = ''['' @ drop 1 (s @ l) @ '']''"
    unfolding format_array_def f by (simp only: prod.case)
  then show ?thesis unfolding bs(2) using bs(1) by auto
qed

subsection \<open>Python's str.replace on the laid-out values\<close>

lemma py_replace_skip:
  "old \<noteq> [] \<Longrightarrow> hd old \<notin> set a \<Longrightarrow> py_replace old new (a @ b) = a @ py_replace old new b"
proof (induction a)
  case (Cons c a)
  then have "take (length old) (c # a @ b) \<noteq> old" by (cases old) auto
  then show ?case using Cons by simp
qed simp

lemma py_replace_hit: "old \<noteq> [] \<Longrightarrow> py_replace old new (old @ b) = new @ py_replace old new b"
  by (cases old) simp_all

lemma py_replace_single_delete: "py_replace [c] [] s = filter (\<lambda>x. x \<noteq> c) s"
  by (induction s) auto

lemma nat_str_digit_vals: "\<forall>c\<in>set (nat_str k). digit_val c \<noteq> None"
  using nat_str_digits [of k] digit_val_digit_char by fastforce

lemma py_replace_digits:
  "\<forall>c\<in>set d. digit_val c \<noteq> None \<Longrightarrow> old \<noteq> [] \<Longrightarrow> digit_val (hd old) = None \<Longrightarrow>
   py_replace old new (d @ r) = d @ py_replace old new r"
  by (rule py_replace_skip) auto

lemma py_replace_second:
  "y \<noteq> z \<Longrightarrow> py_replace (x # y # os) new (x # z # r) = x # py_replace (x # y # os) new (z # r)"
  by simp

lemma char_facts:
  "digit_val CHR ''b'' = None" "digit_val apos = None" "digit_val newline = None"
  "digit_val CHR '' '' = None" "digit_val CHR '']'' = None"
  "apos \<noteq> CHR ''b''" "newline \<noteq> CHR ''b''" "CHR '']'' \<noteq> apos" "newline \<noteq> apos"
  "CHR '' '' \<noteq> apos" "CHR '' '' \<noteq> newline" "CHR ''['' \<noteq> CHR ''b''" "CHR ''['' \<noteq> apos"
  "CHR ''['' \<noteq> newline" "CHR '']'' \<noteq> newline" "CHR '','' \<noteq> newline" "CHR '','' \<noteq> apos"
  by (simp_all add: digit_val_def apos_def newline_def)

lemma digit_not_chars: "digit_val c \<noteq> None \<Longrightarrow> c \<noteq> CHR '' '' \<and> c \<noteq> apos \<and> c \<noteq> newline"
  using char_facts(2-4) by auto

lemma replace_step1:
  assumes "length bs = length ds" "\<forall>d\<in>set (d0 # ds). \<forall>c\<in>set d. digit_val c \<noteq> None"
  shows "py_replace [CHR ''b'', apos] [apos]
           (bytes_repr d0 @ concat (map2 (\<lambda>b d. line_sep b @ bytes_repr d) bs ds) @ '']'') =
         [apos] @ d0 @ [apos] @ concat (map2 (\<lambda>b d. line_sep b @ [apos] @ d @ [apos]) bs ds) @ '']''"
  using assms
proof (induction bs ds arbitrary: d0 rule: list_induct2)
  case Nil
  then show ?case by (simp add: bytes_repr_def py_replace_digits char_facts)
next
  case (Cons b bs d ds)
  have "py_replace [CHR ''b'', apos] [apos]
          (bytes_repr d @ concat (map2 (\<lambda>b d. line_sep b @ bytes_repr d) bs ds) @ '']'') =
        [apos] @ d @ [apos] @ concat (map2 (\<lambda>b d. line_sep b @ [apos] @ d @ [apos]) bs ds) @ '']''"
    using Cons.IH Cons.prems by simp
  then show ?case using Cons.prems
    by (cases b) (simp_all add: bytes_repr_def line_sep_def py_replace_digits char_facts)
qed

lemma replace_step2:
  assumes "length bs = length ds" "\<forall>d\<in>set (d0 # ds). d \<noteq> [] \<and> (\<forall>c\<in>set d. digit_val c \<noteq> None)"
  shows "py_replace [apos, CHR '' '', apos] '', ''
           (d0 @ [apos] @ concat (map2 (\<lambda>b d. line_sep b @ [apos] @ d @ [apos]) bs ds) @ '']'') =
         d0 @ concat (map2 (\<lambda>b d. (if b then [apos, newline, CHR '' '', apos] else '', '') @ d) bs ds) @
         [apos] @ '']''"
  using assms
proof (induction bs ds arbitrary: d0 rule: list_induct2)
  case Nil
  then show ?case by (simp add: py_replace_digits char_facts)
next
  case (Cons b bs d ds)
  have IH: "py_replace [apos, CHR '' '', apos] '', ''
          (d @ [apos] @ concat (map2 (\<lambda>b d. line_sep b @ [apos] @ d @ [apos]) bs ds) @ '']'') =
        d @ concat (map2 (\<lambda>b d. (if b then [apos, newline, CHR '' '', apos] else '', '') @ d) bs ds) @
        [apos] @ '']''"
    using Cons.IH Cons.prems by simp
  obtain c cs where c: "d = c # cs" "digit_val c \<noteq> None" using Cons.prems by (cases d) auto
  have "c \<noteq> CHR '' ''" using digit_not_chars [OF c(2)] by simp
  then have "py_replace [apos, CHR '' '', apos] '', '' (apos # d @ r) = apos # py_replace [apos, CHR '' '', apos] '', '' (d @ r)"
    for r using c(1) py_replace_second [of "CHR '' ''" c apos "[apos]" "'', ''" "cs @ r"] by simp
  then show ?case using Cons.prems IH
    by (cases b) (simp_all add: line_sep_def py_replace_digits char_facts)
qed

lemma replace_step34:
  assumes "length bs = length ds" "\<forall>d\<in>set (d0 # ds). \<forall>c\<in>set d. digit_val c \<noteq> None"
  shows "py_replace [newline, CHR '' ''] br (filter (\<lambda>x. x \<noteq> apos)
           (d0 @ concat (map2 (\<lambda>b d. (if b then [apos, newline, CHR '' '', apos] else '', '') @ d) bs ds) @
            [apos] @ '']'')) =
         d0 @ concat (map2 (\<lambda>b d. (if b then br else '', '') @ d) bs ds) @ '']''"
  using assms
proof (induction bs ds arbitrary: d0 rule: list_induct2)
  case Nil
  have "filter (\<lambda>x. x \<noteq> apos) d0 = d0" using Nil digit_not_chars by (auto intro: filter_True)
  then show ?case using Nil by (simp add: py_replace_digits char_facts)
next
  case (Cons b bs d ds)
  have f: "filter (\<lambda>x. x \<noteq> apos) d0 = d0" using Cons.prems digit_not_chars by (auto intro: filter_True)
  have IH: "py_replace [newline, CHR '' ''] br (filter (\<lambda>x. x \<noteq> apos)
           (d @ concat (map2 (\<lambda>b d. (if b then [apos, newline, CHR '' '', apos] else '', '') @ d) bs ds) @
            [apos] @ '']'')) =
         d @ concat (map2 (\<lambda>b d. (if b then br else '', '') @ d) bs ds) @ '']''"
    using Cons.IH Cons.prems by simp
  show ?case using Cons.prems IH f
    by (cases b) (simp_all add: py_replace_digits char_facts)
qed

lemma color_brew_iris: "color_brew 3 = [(229, 129, 57), (57, 229, 129), (129, 57, 229)]"
  by code_simp

lemma proportions_single_class:
  "0 < c \<Longrightarrow> map (\<lambda>x. real x / real (sum_list (replicate k 0 @ [c] @ replicate r 0)))
     (replicate k 0 @ [c] @ replicate r 0) = replicate k 0 @ [1] @ replicate r 0"
  by (simp add: sum_list_replicate)



text \<open>C37. A pure node is filled with its class's colour at full intensity: when all samples
  of a node with at least two classes belong to class \<open>k\<close>, \<open>alpha = 1\<close> and the fill is
  \<open>_color_brew(n_classes)[k]\<close>.\<close>

theorem fill_pure_class_colour:
  assumes "0 < c" "0 < k + r"
  shows "get_fill_rgb (replicate k 0 @ [c] @ replicate r 0) = color_brew (Suc (k + r)) ! k"
proof -
  let ?v = "replicate k 0 @ [c] @ replicate r 0"
  let ?p = "replicate k 0 @ [1] @ replicate r (0 :: real)"
  have p: "map (\<lambda>x. real x / real (sum_list ?v)) ?v = ?p" using proportions_single_class [OF assms(1)] .
  have "np_argmax ?v = Inr (argmax_real (map (\<lambda>x. real x / real (sum_list ?v)) ?v))"
    using assms(1) by (intro np_argmax_proportions) (simp_all add: sum_list_replicate)
  then have "np_argmax ?v = Inr (argmax_real ?p)" by (simp only: p)
  then have k: "argmax_real ?p = k" using np_argmax_pure [OF assms(1), of k r] by simp
  have "rev (sort ?p) = 1 # replicate (k + r) 0" by (simp add: sort_single_one)
  then have a: "color_alpha ?p = 1" using assms(2) by (simp add: color_alpha_def Let_def nth_Cons')
  obtain x y z where xyz: "color_brew (Suc (k + r)) ! k = (x, y, z)" by (cases "color_brew (Suc (k + r)) ! k") auto
  show ?thesis unfolding get_fill_rgb_def p using k a xyz by (simp add: get_color_def Let_def)
qed

theorem fill_pure_class_colour_witness:
  "get_fill_rgb [0, 50, 0] = (57, 229, 129)"
proof -
  have e: "Suc (1 + 1) = (3 :: nat)" "replicate 1 0 @ [50] @ replicate 1 0 = [0, 50, 0 :: nat]" by simp_all
  have "get_fill_rgb (replicate 1 0 @ [50] @ replicate 1 0) = color_brew (Suc (1 + 1)) ! 1"
    by (rule fill_pure_class_colour) simp_all
  then have "get_fill_rgb [0, 50, 0] = color_brew 3 ! 1" by (simp only: e)
  then show ?thesis by (simp add: color_brew_iris)
qed

text \<open>C38. A node whose two most frequent classes tie is filled white: \<open>s\<^sub>0 = s\<^sub>1\<close> makes
  \<open>alpha = 0\<close>, whatever the majority class.\<close>

theorem fill_tie_white:
  assumes "i < length v" "j < length v" "i \<noteq> j" "v ! i = Max (set v)" "v ! j = Max (set v)"
    "0 < sum_list v"
  shows "get_fill_rgb v = (255, 255, 255)"
proof -
  let ?p = "map (\<lambda>x. real x / real (sum_list v)) v"
  have le: "\<forall>l<length ?p. ?p ! l \<le> ?p ! i"
    using assms(1,4,6) by (auto intro!: divide_right_mono)
  have "?p ! i = ?p ! j" using assms(1,2,4,5) by simp
  then have t: "rev (sort ?p) ! 0 = ?p ! i \<and> rev (sort ?p) ! 1 = ?p ! i"
    using sort_top_two_eq [of i ?p j] assms(1-3) le by simp
  have "length ?p \<noteq> 1" using assms(1-3) by simp
  then have a: "color_alpha ?p = 0" using t by (simp add: color_alpha_def Let_def)
  obtain x y z where xyz: "color_brew (length v) ! argmax_real ?p = (x, y, z)"
    by (cases "color_brew (length v) ! argmax_real ?p") auto
  show ?thesis using a xyz by (simp add: get_fill_rgb_def get_color_def Let_def)
qed

theorem fill_tie_white_witness:
  "get_fill_rgb [50, 50, 50] = (255, 255, 255)"
proof (rule fill_tie_white [of 0 _ 1])
qed simp_all

lemma digit_char_not_sep:
  assumes "c \<in> set (nat_str n)"
  shows "c \<noteq> CHR ''.'' \<and> c \<noteq> CHR ''-''"
proof -
  obtain d where "d < 10" "c = digit_char d" using nat_str_digits [of n] assms by auto
  then have "digit_val c \<noteq> None" using digit_val_digit_char by simp
  moreover have "digit_val CHR ''.'' = None" "digit_val CHR ''-'' = None" by (simp_all add: digit_val_def)
  ultimately show ?thesis by auto
qed

lemma div_mod_real: "0 < k \<Longrightarrow> real (n div k) + real (n mod k) / real k = real n / real k"
proof -
  assume k: "0 < k"
  have "real n = real (n div k * k + n mod k)" by simp
  also have "\<dots> = real (n div k) * real k + real (n mod k)" by (simp only: of_nat_add of_nat_mult)
  finally show ?thesis using k by (simp add: field_simps)
qed

lemma parse_decimal_unsigned:
  assumes "parse_nat fp = Some b"
  shows "parse_decimal (nat_str a @ ''.'' @ fp) = Some (real a + real b / 10 ^ length fp)"
proof -
  obtain c cs where c: "nat_str a = c # cs" by (cases "nat_str a") auto
  have "c \<noteq> CHR ''-''" using digit_char_not_sep [of c a] c by simp
  moreover have "takeWhile (\<lambda>c. c \<noteq> CHR ''.'') (nat_str a @ ''.'' @ fp) = nat_str a"
    using digit_char_not_sep [of _ a] by (simp add: takeWhile_append2)
  ultimately show ?thesis using c assms parse_nat_nat_str [of a] by (simp add: parse_decimal_def Let_def)
qed

lemma parse_decimal_signed:
  assumes "parse_nat fp = Some b"
  shows "parse_decimal (''-'' @ nat_str a @ ''.'' @ fp) = Some (- (real a + real b / 10 ^ length fp))"
proof -
  have "takeWhile (\<lambda>c. c \<noteq> CHR ''.'') (nat_str a @ ''.'' @ fp) = nat_str a"
    using digit_char_not_sep [of _ a] by (simp add: takeWhile_append2)
  then show ?thesis using assms parse_nat_nat_str [of a] by (simp add: parse_decimal_def Let_def)
qed

text \<open>C39. The printed threshold and impurity are faithful to three decimals: the text
  \<open>str(round(x, 3))\<close> reads back as a decimal within 0.0005 of \<open>x\<close>.\<close>

theorem round3_text_close: "\<exists>q. parse_decimal (py_round3_str x) = Some q \<and> \<bar>q - x\<bar> \<le> 1 / 2000"
proof -
  let ?r = "py_round (\<bar>x\<bar> * 1000)"
  let ?q = "nat ?r"
  have "0 \<le> ?r" by (rule py_round_ge) simp
  then have q: "real ?q = of_int ?r" by simp
  have "\<bar>real ?q - \<bar>x\<bar> * 1000\<bar> \<le> 1 / 2" using q py_round_close by simp
  then have close: "\<bar>real ?q / 1000 - \<bar>x\<bar>\<bar> \<le> 1 / 2000" by (simp add: abs_le_iff field_simps)
  obtain b where b: "parse_nat (frac3_str (?q mod 1000)) = Some b"
    "real b / 10 ^ length (frac3_str (?q mod 1000)) = real (?q mod 1000) / 1000"
    using frac3_str_value [of "?q mod 1000"] by auto
  have v: "real (?q div 1000) + real (?q mod 1000) / 1000 = real ?q / 1000"
    using div_mod_real [of 1000 ?q] by simp
  show ?thesis
  proof (cases "x < 0")
    case True
    then have "parse_decimal (py_round3_str x) = Some (- (real ?q / 1000))"
      using parse_decimal_signed [OF b(1)] b(2) v by (simp add: py_round3_str_def Let_def)
    moreover have "\<bar>- (real ?q / 1000) - x\<bar> = \<bar>real ?q / 1000 - \<bar>x\<bar>\<bar>"
    proof -
      have "- (real ?q / 1000) - x = - (real ?q / 1000 - \<bar>x\<bar>)" using True by simp
      then show ?thesis by (simp only: abs_minus_cancel)
    qed
    ultimately show ?thesis using close by (intro exI [of _ "- (real ?q / 1000)"]) simp
  next
    case False
    then have "parse_decimal (py_round3_str x) = Some (real ?q / 1000)"
      using parse_decimal_unsigned [OF b(1)] b(2) v by (simp add: py_round3_str_def Let_def)
    moreover have "\<bar>real ?q / 1000 - x\<bar> \<le> 1 / 2000" using close False by simp
    ultimately show ?thesis by blast
  qed
qed

lemma py_round3_str_examples:
  "py_round3_str (49 / 20) = ''2.45'' \<and> py_round3_str (- 1 / 2500) = ''-0.0'' \<and> py_round3_str 5 = ''5.0''"
  by code_simp

text \<open>C35. The \<open>value = \<close> line lists a node's class counts, in class order: for a node with
  at most \<open>threshold\<close> classes it reads \<open>[k\<^sub>0, k\<^sub>1, ...]\<close>, where numpy's line wrapping has
  turned some of the separators \<open>", "\<close> into the line break \<open><br/>\<close>.\<close>

theorem value_text_counts:
  assumes "v \<noteq> []" "length v \<le> np_threshold"
  shows "\<exists>bs. length bs = length v - 1 \<and>
           value_text v = ''['' @ nat_str (hd v) @
                          concat (map2 (\<lambda>b k. (if b then br else '', '') @ nat_str k) bs (tl v)) @ '']''"
proof -
  obtain k0 ks where v: "v = k0 # ks" using assms(1) by (cases v) auto
  let ?ds = "map nat_str ks"
  have dig: "\<forall>d\<in>set (nat_str k0 # ?ds). d \<noteq> [] \<and> (\<forall>c\<in>set d. digit_val c \<noteq> None)"
    using nat_str_digit_vals by auto
  have words: "\<forall>w\<in>set (bytes_repr (nat_str k0) # map bytes_repr ?ds). w \<noteq> [] \<and> \<not> py_isspace (last w)"
    by (auto simp: bytes_repr_def apos_def py_isspace_def)
  obtain bs where bs0: "length bs = length (map bytes_repr ?ds)"
    "format_array (bytes_repr (nat_str k0) # map bytes_repr ?ds) =
       ''['' @ bytes_repr (nat_str k0) @ concat (map2 (\<lambda>b w. line_sep b @ w) bs (map bytes_repr ?ds)) @ '']''"
    using format_array_join [OF words] by blast
  have bs: "length bs = length ?ds" using bs0 by simp
  have m: "map2 (\<lambda>b w. line_sep b @ w) bs (map bytes_repr ?ds) = map2 (\<lambda>b d. line_sep b @ bytes_repr d) bs ?ds"
    by (simp add: zip_map2 case_prod_beta)
  have n: "np_bytes_str (map nat_str v) = format_array (bytes_repr (nat_str k0) # map bytes_repr ?ds)"
    using assms(2) v by (simp add: np_bytes_str_def)
  have s1: "py_replace [CHR ''b'', apos] [apos] (np_bytes_str (map nat_str v)) =
      ''['' @ [apos] @ nat_str k0 @ [apos] @ concat (map2 (\<lambda>b d. line_sep b @ [apos] @ d @ [apos]) bs ?ds) @ '']''"
    using n bs0(2) m replace_step1 [OF bs, of "nat_str k0"] dig by (simp add: char_facts)
  have s2: "py_replace [apos, CHR '' '', apos] '', '' (''['' @ [apos] @ nat_str k0 @ [apos] @
        concat (map2 (\<lambda>b d. line_sep b @ [apos] @ d @ [apos]) bs ?ds) @ '']'') =
      ''['' @ [apos] @ nat_str k0 @
        concat (map2 (\<lambda>b d. (if b then [apos, newline, CHR '' '', apos] else '', '') @ d) bs ?ds) @ [apos] @ '']''"
  proof -
    obtain c cs where c: "nat_str k0 = c # cs" "digit_val c \<noteq> None" using dig by (cases "nat_str k0") auto
    then have "c \<noteq> CHR '' ''" using digit_not_chars by simp
    then show ?thesis using replace_step2 [OF bs, of "nat_str k0"] dig c(1) char_facts
      by (simp add: py_replace_second)
  qed
  have s34: "py_replace [newline, CHR '' ''] br (py_replace [apos] [] (''['' @ [apos] @ nat_str k0 @
        concat (map2 (\<lambda>b d. (if b then [apos, newline, CHR '' '', apos] else '', '') @ d) bs ?ds) @ [apos] @ '']'')) =
      ''['' @ nat_str k0 @ concat (map2 (\<lambda>b d. (if b then br else '', '') @ d) bs ?ds) @ '']''"
    using replace_step34 [OF bs, of "nat_str k0"] dig char_facts
    by (simp add: py_replace_single_delete)
  have "value_text v = ''['' @ nat_str k0 @ concat (map2 (\<lambda>b d. (if b then br else '', '') @ d) bs ?ds) @ '']''"
    unfolding value_text_def s1 s2 s34 by (rule refl)
  moreover have "map2 (\<lambda>b d. (if b then br else '', '') @ d) bs ?ds =
                 map2 (\<lambda>b k. (if b then br else '', '') @ nat_str k) bs ks"
    by (simp add: zip_map2 case_prod_beta)
  ultimately show ?thesis using bs v by auto
qed

theorem value_text_counts_witness:
  "value_text [0, 49, 5] = ''[0, 49, 5]'' \<and>
   (\<exists>bs. length bs = 2 \<and> value_text [0, 49, 5] =
      ''['' @ nat_str 0 @ concat (map2 (\<lambda>b k. (if b then br else '', '') @ nat_str k) bs [49, 5]) @ '']'')"
proof -
  have "value_text [0, 49, 5] = ''[0, 49, 5]''" by code_simp
  moreover have "[0, 49, 5 :: nat] \<noteq> []" "length [0, 49, 5 :: nat] \<le> np_threshold" by (simp_all add: np_threshold_def)
  ultimately show ?thesis using value_text_counts [of "[0, 49, 5]"] by (simp add: numeral_2_eq_2)
qed



end
