(* ===== verification/Spec2Isabelle.thy ===== *)
theory Spec2Isabelle
  imports Script Cart DotStyle
begin

text \<open>
  \<^bold>\<open>A verification library for src/assets/code/decision_tree_example.py.\<close>

  The program is a 38-line Python script: it loads the iris data set (line 8), sets the
  hold-out positions \<open>test_idx = [0, 50, 100]\<close> (line 11), splits labels and rows into
  a training and a hold-out part with \<open>np.delete\<close> and integer-array indexing
  (lines 14-19), fits a \<open>DecisionTreeClassifier\<close> on the training part (lines 22-23),
  prints the true hold-out labels and the predicted ones (lines 26-27), and writes the
  Graphviz description of the tree to \<open>iris_classifier.txt\<close> inside a \<open>with\<close> block
  (lines 31-36). Its parts interact only by passing values down this sequence.

  \<^bold>\<open>Theories.\<close>
  \<^item> \<open>Prelude\<close>: the Python exceptions as a datatype \<open>py_error\<close>, results
    \<open>'a result = py_error + 'a\<close>, sequencing that stops at the first exception
    (\<open>res_bind\<close>, \<open>res_map_list\<close>), and the shared facts on \<open>nths\<close> (the
    elements at a set of positions), including the multiset identities behind the
    partition theorems.
  \<^item> \<open>Numpy\<close>: \<open>np.delete\<close> (\<open>np_delete\<close>, with numpy's single-value and
    boolean-mask paths) and fancy indexing (\<open>np_take\<close>) on the first axis, with
    Python's negative indices and \<open>IndexError\<close>; the reference meaning
    \<open>np_delete_ref\<close> and the theorem that the implementation computes it.
  \<^item> \<open>Partition\<close>: the data set (\<open>dataset\<close>, the fields of \<open>load_iris()\<close> the
    script reads), \<open>test_idx\<close>, and \<open>split_data\<close>, lines 14-19 in order. Its
    theorems: the split on the iris data; that it is a partition of labels and rows for
    distinct positions (multisets and sizes); that it is not one for repeated positions;
    that rows and labels stay paired and in order; the empty hold-out list; the error.
  \<^item> \<open>Classifier\<close>: the library interface \<open>'m ml_lib\<close> (fit, predict) with the
    contract \<open>lib_contract\<close> the script relies on; scikit-learn's fitted tree model
    (\<open>dtree\<close>, \<open>tree_clf\<close>) and \<open>predict\<close> (\<open>tree_predict\<close>: input validation
    raising \<open>ValueError\<close>, tree descent, \<open>classes_[argmax(value)]\<close> with numpy's
    first-maximum \<open>np_argmax\<close>).
  \<^item> \<open>Splitter\<close>: scikit-learn's \<open>BestSplitter\<close> with the Gini criterion
    (\<open>best_split\<close>): candidate thresholds at gaps wider than \<open>FEATURE_THRESHOLD\<close>
    between sorted feature values, rated by Gini's proxy improvement, the first strictly
    best kept. Lemmas: each candidate splits the node into two non-empty parts; without a
    candidate all samples are close in every feature.
  \<^item> \<open>Cart\<close>: the depth-first tree builder \<open>cart_build\<close> (a \<open>function\<close>
    terminating on the node's sample count), \<open>fit_cart\<close> and the library
    \<open>tree_lib po\<close>, where \<open>po\<close> is the per-node feature order drawn from the random
    state (a parameter; \<open>identity_order\<close> in the witnesses). Theorems: the library
    meets \<open>lib_contract\<close>; the fitted classifier is well formed; at most one leaf per
    sample; on separable data the fitted tree reproduces its training labels; and a
    concrete case where two feature orders give different predictions.
  \<^item> \<open>Gini\<close>: the criterion's impurity \<open>gini\<close> (\<open>Gini.node_impurity\<close>,
    \<open>1 - \<Sum>(count_k / n)\<^sup>2\<close>), the list \<open>split_candidates\<close> of all candidate splits
    in the order \<open>node_split\<close> visits them, and a declarative reference
    \<open>best_split_ref\<close> (the first candidate of maximal proxy improvement). Theorems:
    the one-pass \<open>best_split\<close> equals the reference; the proxy improvement is the
    weighted child impurity up to a constant, so the chosen split minimises
    \<open>|L| gini L + |R| gini R\<close>; no candidate increases impurity (the inequality
    \<open>(a + b)\<^sup>2 / (x + y) \<le> a\<^sup>2 / x + b\<^sup>2 / y\<close> per class); the impurity of a
    non-empty node is zero exactly when it is pure, so \<open>is_pure\<close> is the
    \<open>impurity <= EPSILON\<close> leaf test on exact values.
  \<^item> \<open>Report\<close>: \<open>print\<close> of an integer array, \<open>np_array_str\<close>, numpy's
    \<open>array_str\<close> under the default print options: padding to a common width,
    \<open>_formatArray\<close>'s loop (\<open>format_row\<close>) with \<open>_extendLine\<close> (\<open>extend_line\<close>)
    wrapping at 75 characters under a one-space hanging indent, and the summary of arrays
    of more than 1000 elements. Theorems: the round trip through \<open>parse_array\<close> up to
    1000 elements, the summary beyond, the column alignment, and no printed line longer
    than 75 characters.
  \<^item> \<open>Export\<close>: the file system as a record \<open>fs\<close> (contents, writability, open
    handles), \<open>open(p, "w")\<close>, \<open>write\<close> and \<open>close\<close>, and the \<open>with\<close> block
    \<open>with_open_w\<close> as a scoped resource; \<open>export_graphviz\<close> as the list of DOT
    chunks it writes plus the exception it raises. The text of numbers, statistics lines
    and colours is a parameter (\<open>dot_style\<close>). Theorems: the structure of the output,
    more class lines than leaves, \<open>IndexError\<close> without class names, the handle is
    always released.
  \<^item> \<open>DotStyle\<close>: scikit-learn's node text and colours as the style \<open>sklearn_style\<close>
    the script's exporter uses: \<open>_color_brew\<close>, \<open>get_color\<close>/\<open>get_fill_color\<close>,
    \<open>str(round(x, 3))\<close>, and the gini, samples and value lines of \<open>node_to_str\<close>
    (numpy's \<open>str\<close> of the counts as bytes, laid out by the Report theory's
    \<open>format_array\<close>, then four \<open>str.replace\<close> calls). Theorems: fill colours are
    well-formed \<open>#rrggbb\<close> codes, pure nodes get their class colour and ties are white,
    the printed numbers read back within 0.0005, the value line lists the counts in
    order, and the printed impurity is the splitter's Gini impurity.
  \<^item> \<open>Script\<close>: the script as eleven statements (\<open>stmt\<close>) executed by
    \<open>exec_stmt\<close>/\<open>run\<close> over the record \<open>vars\<close> of its variables, stdout and the
    file system, the library being a parameter \<open>'m env\<close>; an exception is
    \<open>Raise e v\<close>, keeping the effects already performed. The same execution as an
    inductive step relation \<open>step\<close> on configurations: \<open>run\<close> computes exactly the
    terminal configuration \<open>step\<close> reaches (refinement), every run ends within 12
    steps (one per statement and the final one: no fuel is needed, the script has no
    loop), and an invariant of all reachable configurations by rule induction (stdout
    grows, handles are released, only \<open>iris_classifier.txt\<close> changes); a failing
    \<open>load_iris\<close> ends the script at once.
  \<^item> This theory: the exporter contract for the tree model, and the theorems about the
    whole script for every library meeting the contracts: the normal run (exit 0, the two
    printed lines, the file holds the exporter's output), an exporter that raises (the
    partial file stays), an output file that cannot be opened (\<open>OSError\<close>, no file
    changed), and the empty hold-out list (\<open>[]\<close> printed, then \<open>ValueError\<close>). The
    witnesses run the script on a concrete iris-shaped data set with the tree model.

  \<^bold>\<open>Findings.\<close> The code prints the true labels before it predicts, while the
  specification orders Predict before Report; an empty hold-out list makes \<open>predict\<close>
  raise instead of printing an empty prediction; a repeated hold-out index appears twice
  in the hold-out part; an exception inside the \<open>with\<close> block leaves a partly written
  file; every node of the exported tree, not only the leaves, carries a class line; the
  script leaves \<open>random_state\<close> unset, so ties between features make the fitted tree and
  its predictions depend on the random feature order; and \<open>print\<close> of more than 1000
  labels writes only six of them, which the iris data (150 rows) never reaches.

  \<^bold>\<open>Not modelled.\<close> The numeric contents of the iris data (a data set is
  \<open>iris_shaped\<close> when it has 150 rows of 4 measurements, the 50/50/50 labels and the
  names); floating-point arithmetic (measurements, thresholds and Gini values are exact
  \<open>real\<close>s, so ties that float64 rounding might break are not modelled); numpy's print
  options other than the defaults, and arrays of other dtypes or dimensions;
  scikit-learn's random number generator (the feature order it draws is a parameter),
  sample weights and the normalisation of \<open>tree_.value\<close> (counts are stored, so the
  value line is the one of scikit-learn before 1.4); Python's exponent notation for
  floats of \<open>10\<^sup>1\<^sup>6\<close> and above; the web renderer named in the final comment.
\<close>

subsection \<open>Names for the script's states and a concrete run\<close>

abbreviation iris_train_rows :: "dataset \<Rightarrow> real list list" where
  "iris_train_rows d \<equiv> nths (data d) (- {0, 50, 100})"

abbreviation iris_train_labels :: "nat list" where
  "iris_train_labels \<equiv> replicate 49 0 @ replicate 49 1 @ replicate 49 2"

abbreviation iris_test_rows :: "dataset \<Rightarrow> real list list" where
  "iris_test_rows d \<equiv> [data d ! 0, data d ! 50, data d ! 100]"

text \<open>The variables after line 27 of the script: the split of the iris data, a fitted
  model \<open>m\<close>, and the two printed lines, the second of them the predictions \<open>ys\<close>.\<close>

abbreviation after_report :: "'m vars \<Rightarrow> dataset \<Rightarrow> 'm \<Rightarrow> nat list \<Rightarrow> 'm vars" where
  "after_report v0 d m ys \<equiv>
     v0\<lparr>iris := d, test_idx_v := test_idx, train_target_v := iris_train_labels,
        train_data_v := iris_train_rows d, test_target_v := [0, 1, 2],
        test_data_v := iris_test_rows d, clf := Fitted m,
        stdout := stdout v0 @ [''[0 1 2]'', np_array_str ys]\<rparr>"

text \<open>A concrete environment for the witnesses: an iris-shaped data set (every
  measurement 0), the tree model, its exporter with scikit-learn's style (or an exporter whose
  write fails after the first line, as on a full disk), and a file system in which only \<open>iris_classifier.txt\<close> can be opened.\<close>

definition demo_iris :: dataset where
  "demo_iris = \<lparr>data = replicate 150 [0, 0, 0, 0], target = iris_target,
                feature_names = iris_feature_names, target_names = iris_target_names\<rparr>"

definition demo_env :: "tree_clf env" where
  "demo_env = \<lparr>load = Inr demo_iris, lib = tree_lib identity_order,
               export = (\<lambda>m fn cn. export_graphviz sklearn_style fn cn m)\<rparr>"

definition demo_env_disk_full :: "tree_clf env" where
  "demo_env_disk_full = \<lparr>load = Inr demo_iris, lib = tree_lib identity_order,
                         export = (\<lambda>m fn cn. ([''digraph Tree {''], Some OSError))\<rparr>"

definition demo_fs :: fs where
  "demo_fs = \<lparr>files = Map.empty, writable = (\<lambda>p. p = out_path), open_handles = []\<rparr>"

subsection \<open>The library implementation meets the exporter contract\<close>

lemma tree_export_meets_contract:
  assumes perm: "feature_perm po"
  shows "export_contract (tree_lib po) (\<lambda>m fn cn. export_graphviz st fn cn m)"
  unfolding export_contract_def
proof (intro allI impI)
  fix X y m and fn cn :: "string list"
  assume ok: "fit_input_ok X y" and fit: "lib_fit (tree_lib po) X y = Inr m"
    and fnl: "length (hd X) \<le> length fn" and cn: "card (set y) \<le> length cn"
  let ?cs = "sorted_list_of_set (set y)"
  have m: "m = \<lparr>classes = ?cs, n_features_in = length (hd X),
              root = cart_build ?cs (po (length (hd X))) [] (zip X y)\<rparr>"
    using fit_cart_Inr [OF ok] fit by (simp add: tree_lib_def)
  have "\<forall>p. set (po (length (hd X)) p) \<subseteq> {..<length (hd X)}"
    using perm by (simp add: feature_perm_def)
  then have "wf_tree (length ?cs) (length (hd X)) (cart_build ?cs (po (length (hd X))) [] (zip X y))"
    by (rule cart_build_wf)
  then have wf: "wf_tree (length ?cs) (length (hd X)) (root m)" by (simp only: m tree_clf.select_convs)
  have "y \<noteq> []" using ok by (auto simp: fit_input_ok_def)
  then have "0 < length ?cs" and "length ?cs \<le> length cn" using cn by (simp_all add: card_gt_0_iff)
  from wf_tree_labels_ok [OF wf this(1) fnl this(2)]
  have "labels_ok (length fn) (length cn) (root m)" .
  from export_graphviz_ok [OF this, of st] show "snd (export_graphviz st fn cn m) = None"
    by auto
qed

subsection \<open>The script up to the export\<close>

lemma fit_input_ok_width:
  assumes "X \<noteq> []" and "length X = length y" and "\<forall>r\<in>set X. length r = w" and "0 < w"
  shows "fit_input_ok X y \<and> length (hd X) = w"
proof -
  have "length (hd X) = w" using assms(1,3) hd_in_set by blast
  then have "hd X \<noteq> []" using assms(4) by auto
  with assms \<open>length (hd X) = w\<close> show ?thesis by (simp add: fit_input_ok_def rows_of_width_def list_all_iff)
qed

lemma iris_train_facts:
  assumes "iris_shaped d"
  shows "fit_input_ok (iris_train_rows d) iris_train_labels"
    and "length (hd (iris_train_rows d)) = 4"
    and "iris_test_rows d \<noteq> [] \<and> rows_of_width (length (hd (iris_train_rows d))) (iris_test_rows d)"
    and "set iris_train_labels = {0, 1, 2}"
proof -
  have rows: "\<forall>r\<in>set (data d). length r = 4" and n: "length (data d) = 150"
    using assms by (simp_all add: iris_shaped_def list_all_iff)
  have len: "length (iris_train_rows d) = 147"
    using length_nths_compl_distinct [of "[0, 50, 100]" "data d"] n by simp
  have ne: "iris_train_rows d \<noteq> []" using len by (metis list.size(3) zero_neq_numeral)
  have ly: "length (iris_train_rows d) = length iris_train_labels" using len by simp
  have sub: "\<forall>r\<in>set (iris_train_rows d). length r = 4"
    using rows set_nths_subset [of "data d" "- {0, 50, 100}"] by (simp only: subset_iff) blast
  have ok: "fit_input_ok (iris_train_rows d) iris_train_labels \<and> length (hd (iris_train_rows d)) = 4"
    by (rule fit_input_ok_width [OF ne ly sub]) simp
  then show "fit_input_ok (iris_train_rows d) iris_train_labels"
    and "length (hd (iris_train_rows d)) = 4" by simp_all
  have "data d ! 0 \<in> set (data d)" "data d ! 50 \<in> set (data d)" "data d ! 100 \<in> set (data d)"
    using n by simp_all
  then show "iris_test_rows d \<noteq> [] \<and> rows_of_width (length (hd (iris_train_rows d))) (iris_test_rows d)"
    using rows ok by (simp add: rows_of_width_def)
  show "set iris_train_labels = {0, 1, 2}" by auto
qed

lemma np_array_str_iris_labels: "np_array_str [0, Suc 0, 2] = ''[0 1 2]''"
  by code_simp

lemma run_script_iris:
  assumes "load env = Inr d" and "iris_shaped d"
  shows "run env script v0 =
           run env [FitClf, PrintTarget, PrintPrediction, ExportTree]
             (v0\<lparr>iris := d, test_idx_v := test_idx, train_target_v := iris_train_labels,
                 train_data_v := iris_train_rows d, test_target_v := [0, 1, 2],
                 test_data_v := iris_test_rows d, clf := Unfitted\<rparr>)"
  using run_script_for_split [OF assms(1) split_data_iris [OF assms(2)]] by (simp add: script_def)

text \<open>Lines 8-27 for every library meeting \<open>lib_contract\<close>: the script reaches the
  \<open>with\<close> block with a fitted model and both lines printed.\<close>

lemma run_script_iris_report:
  assumes lib: "lib_contract (lib env)" and ld: "load env = Inr d" and shp: "iris_shaped d"
  shows "\<exists>m ys. lib_fit (lib env) (iris_train_rows d) iris_train_labels = Inr m \<and>
           lib_predict (lib env) m (iris_test_rows d) = Inr ys \<and>
           length ys = 3 \<and> set ys \<subseteq> {0, 1, 2} \<and>
           run env script v0 = run env [ExportTree] (after_report v0 d m ys)"
proof -
  note facts = iris_train_facts [OF shp]
  obtain m where fit: "lib_fit (lib env) (iris_train_rows d) iris_train_labels = Inr m"
    and pr: "\<forall>Z. Z \<noteq> [] \<longrightarrow> rows_of_width (length (hd (iris_train_rows d))) Z \<longrightarrow>
               (\<exists>ys. lib_predict (lib env) m Z = Inr ys \<and> length ys = length Z \<and>
                     set ys \<subseteq> set iris_train_labels)"
    using lib_contractD [OF lib facts(1)] by (elim exE conjE)
  obtain ys where ys: "lib_predict (lib env) m (iris_test_rows d) = Inr ys" "length ys = 3"
    "set ys \<subseteq> {0, 1, 2}"
  proof -
    from pr facts(3) obtain ys where "lib_predict (lib env) m (iris_test_rows d) = Inr ys"
      "length ys = length (iris_test_rows d)" "set ys \<subseteq> set iris_train_labels"
      by (elim allE [of _ "iris_test_rows d"] impE exE conjE) simp_all
    with facts(4) that show ?thesis by simp
  qed
  have "run env script v0 = run env [ExportTree] (after_report v0 d m ys)"
    using fit ys(1)
    by (simp add: run_script_iris [OF ld shp] assign_def py_print_def np_array_str_iris_labels)
  with fit ys show ?thesis by blast
qed

text \<open>Lines 31-36 after line 27: the outcome of the \<open>with\<close> block.\<close>

lemma run_export_after_report:
  assumes shp: "iris_shaped d"
    and ex: "export env m iris_feature_names iris_target_names = (cs, r)"
  shows "run env [ExportTree] (after_report v0 d m ys) =
           (if writable (fsys v0) out_path
            then (let v' = (after_report v0 d m ys)
                           \<lparr>fsys := (fsys v0)\<lparr>files := (files (fsys v0))(out_path \<mapsto> concat cs)\<rparr>\<rparr>
                  in case r of None \<Rightarrow> Ok v' | Some e \<Rightarrow> Raise e v')
            else Raise OSError (after_report v0 d m ys))"
proof -
  have "clf (after_report v0 d m ys) = Fitted m" by simp
  moreover have "export env m (feature_names (iris (after_report v0 d m ys)))
                   (target_names (iris (after_report v0 d m ys))) = (cs, r)"
    using shp ex by (simp add: iris_shaped_def)
  ultimately show ?thesis by (simp only: run_ExportTree_fitted) simp
qed

subsection \<open>The script end to end\<close>



text \<open>C2. The exporter is called inside the \<open>with\<close> block and its exception is not
  caught: whatever the exporter writes before it stops stays in \<open>iris_classifier.txt\<close>
  (the file is truncated on open and closed on exit), the handle is closed, and the
  exporter's exception, if any, ends the script after both lines were printed.\<close>

theorem script_export_outcome:
  assumes lib: "lib_contract (lib env)" and ld: "load env = Inr d" and shp: "iris_shaped d"
    and w: "writable (fsys v0) out_path"
  shows "\<exists>m ys cs r v. export env m iris_feature_names iris_target_names = (cs, r) \<and>
           stdout v = stdout v0 @ [''[0 1 2]'', np_array_str ys] \<and>
           files (fsys v) out_path = Some (concat cs) \<and>
           open_handles (fsys v) = open_handles (fsys v0) \<and>
           run env script v0 = (case r of None \<Rightarrow> Ok v | Some e \<Rightarrow> Raise e v)"
proof -
  obtain m ys where run: "run env script v0 = run env [ExportTree] (after_report v0 d m ys)"
    using run_script_iris_report [OF lib ld shp] by blast
  have names: "feature_names d = iris_feature_names" "target_names d = iris_target_names"
    using shp by (simp_all add: iris_shaped_def)
  obtain cs r where cs: "export env m iris_feature_names iris_target_names = (cs, r)"
    by (cases "export env m iris_feature_names iris_target_names") auto
  let ?v = "(after_report v0 d m ys)\<lparr>fsys := (fsys v0)\<lparr>files := (files (fsys v0))(out_path \<mapsto> concat cs)\<rparr>\<rparr>"
  have "run env script v0 = (case r of None \<Rightarrow> Ok ?v | Some e \<Rightarrow> Raise e ?v)"
    using w by (simp only: run run_export_after_report [OF shp cs]) (simp add: Let_def split: option.split)
  then show ?thesis using cs by (intro exI [of _ m] exI [of _ ys] exI [of _ cs] exI [of _ r] exI [of _ ?v]) simp
qed

theorem script_export_outcome_witness:
  "\<exists>v. run demo_env_disk_full script (init_vars demo_fs) = Raise OSError v \<and>
       files (fsys v) out_path = Some ''digraph Tree {'' \<and> open_handles (fsys v) = []"
proof -
  have lib: "lib_contract (lib demo_env_disk_full)"
    using tree_lib_meets_contract [OF feature_perm_identity_order] by (simp add: demo_env_disk_full_def)
  have ld: "load demo_env_disk_full = Inr demo_iris" by (simp add: demo_env_disk_full_def)
  have shp: "iris_shaped demo_iris" by (simp add: demo_iris_def iris_shaped_def list_all_iff)
  have w: "writable (fsys (init_vars demo_fs)) out_path" by (simp add: init_vars_def demo_fs_def)
  show ?thesis using script_export_outcome [OF lib ld shp w]
    by (auto simp: init_vars_def demo_fs_def demo_env_disk_full_def)
qed

text \<open>C3. When \<open>iris_classifier.txt\<close> cannot be opened for writing, the script ends
  with \<open>OSError\<close> after printing both lines, and no file is created or changed.\<close>

theorem script_open_failure:
  assumes lib: "lib_contract (lib env)" and ld: "load env = Inr d" and shp: "iris_shaped d"
    and nw: "\<not> writable (fsys v0) out_path"
  shows "\<exists>v ys. run env script v0 = Raise OSError v \<and> exit_code (run env script v0) = 1 \<and>
           stdout v = stdout v0 @ [''[0 1 2]'', np_array_str ys] \<and> length ys = 3 \<and>
           fsys v = fsys v0"
proof -
  obtain m ys where ys: "length ys = 3"
    and run: "run env script v0 = run env [ExportTree] (after_report v0 d m ys)"
    using run_script_iris_report [OF lib ld shp] by blast
  obtain cs r where cs: "export env m iris_feature_names iris_target_names = (cs, r)"
    by (cases "export env m iris_feature_names iris_target_names") auto
  have "run env script v0 = Raise OSError (after_report v0 d m ys)"
    using nw by (simp only: run run_export_after_report [OF shp cs]) simp
  then show ?thesis using ys by (intro exI [of _ "after_report v0 d m ys"] exI [of _ ys]) simp
qed

theorem script_open_failure_witness:
  "\<exists>v. run demo_env script (init_vars (demo_fs\<lparr>writable := (\<lambda>p. False)\<rparr>)) = Raise OSError v \<and>
       files (fsys v) out_path = None \<and> length (stdout v) = 2"
proof -
  have lib: "lib_contract (lib demo_env)" using tree_lib_meets_contract [OF feature_perm_identity_order] by (simp add: demo_env_def)
  have ld: "load demo_env = Inr demo_iris" by (simp add: demo_env_def)
  have shp: "iris_shaped demo_iris" by (simp add: demo_iris_def iris_shaped_def list_all_iff)
  have nw: "\<not> writable (fsys (init_vars (demo_fs\<lparr>writable := (\<lambda>p. False)\<rparr>))) out_path"
    by (simp add: init_vars_def)
  show ?thesis using script_open_failure [OF lib ld shp nw] by (auto simp: init_vars_def demo_fs_def)
qed

text \<open>C4. With an empty hold-out list the script does not print an empty prediction: the
  training part is the whole data set, line 26 prints \<open>[]\<close>, and \<open>clf.predict\<close> of
  the empty batch raises \<open>ValueError\<close>, so the script ends before the export and leaves
  the file system unchanged.\<close>

theorem script_empty_holdout:
  assumes tl: "lib env = tree_lib po" and ld: "load env = Inr d" and shp: "iris_shaped d"
  shows "\<exists>v. run env (script_for []) v0 = Raise ValueError v \<and>
           stdout v = stdout v0 @ [''[]''] \<and> fsys v = fsys v0"
proof -
  have sp: "split_data d [] =
      Inr \<lparr>train_target = target d, train_data = data d, test_target = [], test_data = []\<rparr>"
    by (simp add: split_data_def np_simps nths_all)
  have rows: "\<forall>r\<in>set (data d). length r = 4" and n: "length (data d) = 150"
    and t: "length (target d) = 150"
    using shp by (simp_all add: iris_shaped_def list_all_iff iris_target_def)
  have "data d \<noteq> []" using n by auto
  with n t rows have "fit_input_ok (data d) (target d) \<and> length (hd (data d)) = 4"
    by (intro fit_input_ok_width) simp_all
  then obtain m where fit: "fit_cart po (data d) (target d) = Inr m"
    by (simp add: fit_cart_def Let_def)
  have e: "np_array_str [] = ''[]''" by (simp add: np_array_str_def max_str_len_def)
  let ?v = "v0\<lparr>iris := d, test_idx_v := [], train_target_v := target d, train_data_v := data d,
              test_target_v := [], test_data_v := [], clf := Fitted m, stdout := stdout v0 @ [''[]'']\<rparr>"
  have "run env (script_for []) v0 = Raise ValueError ?v"
    using fit tl
    by (simp add: run_script_for_split [OF ld sp] assign_def py_print_def e tree_lib_def tree_predict_def)
  then show ?thesis by (intro exI [of _ ?v]) simp
qed

theorem script_empty_holdout_witness:
  "\<exists>v. run demo_env (script_for []) (init_vars demo_fs) = Raise ValueError v \<and>
       stdout v = [''[]''] \<and> files (fsys v) out_path = None"
proof -
  have tl: "lib demo_env = tree_lib identity_order" and ld: "load demo_env = Inr demo_iris"
    by (simp_all add: demo_env_def)
  have shp: "iris_shaped demo_iris" by (simp add: demo_iris_def iris_shaped_def list_all_iff)
  show ?thesis using script_empty_holdout [OF tl ld shp, of "init_vars demo_fs"]
    by (auto simp: init_vars_def demo_fs_def)
qed

end
